theory Spec2Isabelle
  imports
    Main
    "HOL-Library.Sublist"
    "HOL-Library.Char_ord"
    "HOL-Library.List_Lexorder"
    "HOL-Library.Multiset"
    "HOL-Library.AList"
begin

section \<open>Text, bytes and the regular expressions of the rewrite passes\<close>

text \<open>
  The program reads and writes its files as ISO-8859-1, where every byte is one character
  and every character of a file is one byte. A Python string of the program is therefore a
  \<^typ>\<open>string\<close> here (a list of 8-bit characters), and so are the bytes of a file.
\<close>

definition LF :: char where
  "LF = CHR 0x0A"

definition CR :: char where
  "CR = CHR 0x0D"

definition backslash :: char where
  "backslash = CHR 0x5C"

text \<open>
  \<open>\w\<close> of Python's \<open>re\<close> on a \<open>str\<close> pattern: the underscore and every character
  that \<open>str.isalnum\<close> accepts. Below code point 256 these are the ASCII letters and
  digits and the Latin-1 letters, superscript digits and fractions.
\<close>

definition is_word_char :: "char \<Rightarrow> bool" where
  "is_word_char c =
     (let n = (of_char c :: nat) in
        (48 \<le> n \<and> n \<le> 57) \<or> (65 \<le> n \<and> n \<le> 90) \<or> n = 95 \<or> (97 \<le> n \<and> n \<le> 122)
        \<or> n = 170 \<or> n = 178 \<or> n = 179 \<or> n = 181 \<or> n = 185 \<or> n = 186
        \<or> (188 \<le> n \<and> n \<le> 190) \<or> (192 \<le> n \<and> n \<le> 214)
        \<or> (216 \<le> n \<and> n \<le> 246) \<or> 248 \<le> n)"

text \<open>
  The character on one side of a position is \<open>None\<close> at either end of the text.
  \<open>\b\<close> holds at a position when exactly one of its two sides is a word character.
\<close>

fun is_w :: "char option \<Rightarrow> bool" where
  "is_w None = False"
| "is_w (Some c) = is_word_char c"

definition word_boundary :: "char option \<Rightarrow> char option \<Rightarrow> bool" where
  "word_boundary before after = (is_w before \<noteq> is_w after)"

fun head :: "string \<Rightarrow> char option" where
  "head [] = None"
| "head (c # cs) = Some c"

fun last_char :: "char option \<Rightarrow> string \<Rightarrow> char option" where
  "last_char prev [] = prev"
| "last_char prev (c # cs) = last_char (Some c) cs"

text \<open>
  The two pattern shapes the passes build: \<open>re.escape(old)\<close>, which matches the text
  \<open>old\<close> wherever it stands, and \<open>rf"\b{re.escape(old)}\b"\<close>, which also asks for a word
  boundary at both ends of the match.
\<close>

datatype pattern = Literal string | Bounded string

fun pattern_text :: "pattern \<Rightarrow> string" where
  "pattern_text (Literal old) = old"
| "pattern_text (Bounded old) = old"

text \<open>
  \<open>matches_here p prev s\<close>: the pattern matches at the position whose left neighbour is
  \<open>prev\<close> and where the rest of the text is \<open>s\<close>.
\<close>

fun matches_here :: "pattern \<Rightarrow> char option \<Rightarrow> string \<Rightarrow> bool" where
  "matches_here (Literal old) prev s = prefix old s"
| "matches_here (Bounded old) prev s =
     (prefix old s \<and> word_boundary prev (head s)
      \<and> word_boundary (last_char prev old) (head (drop (length old) s)))"

text \<open>
  \<open>re.subn\<close> scans from the left for non-overlapping matches, copies the text between
  them and puts the replacement in place of each match. After an empty match the scan
  copies one character and moves on, so an empty pattern matches once at every position.
\<close>

function re_subn_from :: "pattern \<Rightarrow> string \<Rightarrow> char option \<Rightarrow> string \<Rightarrow> string \<times> nat" where
  "re_subn_from p repl prev s =
     (if matches_here p prev s then
        (if pattern_text p = [] then
           (case s of
              [] \<Rightarrow> (repl, 1)
            | c # cs \<Rightarrow>
                (case re_subn_from p repl (Some c) cs of (r, n) \<Rightarrow> (repl @ c # r, Suc n)))
         else
           (case re_subn_from p repl (last_char prev (pattern_text p))
                   (drop (length (pattern_text p)) s) of
              (r, n) \<Rightarrow> (repl @ r, Suc n)))
      else
        (case s of
           [] \<Rightarrow> ([], 0)
         | c # cs \<Rightarrow> (case re_subn_from p repl (Some c) cs of (r, n) \<Rightarrow> (c # r, n))))"
  by pat_completeness auto
termination
proof (relation "measure (\<lambda>(p, repl, prev, s). length s)")
  show "wf (measure (\<lambda>(p, repl, prev, s). length s))"
    by simp
next
  fix p :: pattern and repl :: string and prev :: "char option" and s :: string
  assume m: "matches_here p prev s" and ne: "pattern_text p \<noteq> []"
  from m have "prefix (pattern_text p) s"
    by (cases p) simp_all
  with ne have "s \<noteq> []"
    by auto
  with ne show "((p, repl, last_char prev (pattern_text p), drop (length (pattern_text p)) s),
                 (p, repl, prev, s)) \<in> measure (\<lambda>(p, repl, prev, s). length s)"
    by simp
qed simp_all

declare re_subn_from.simps [simp del]

text \<open>\<open>re.search\<close>: is there a match at any position of the text, the end included.\<close>

fun re_search_from :: "pattern \<Rightarrow> char option \<Rightarrow> string \<Rightarrow> bool" where
  "re_search_from p prev [] = matches_here p prev []"
| "re_search_from p prev (c # cs) = (matches_here p prev (c # cs) \<or> re_search_from p (Some c) cs)"

definition re_search :: "pattern \<Rightarrow> string \<Rightarrow> bool" where
  "re_search p s = re_search_from p None s"

text \<open>
  The replacement argument of \<open>re.subn\<close> is a template. A template without a backslash
  stands for itself. One with a backslash is expanded or rejected by \<open>re\<close> before the
  first match is looked for; that expansion is outside this model, which stops there with
  the fault \<open>Template_escape\<close>.
\<close>

datatype fault = Template_escape

definition re_subn :: "pattern \<Rightarrow> string \<Rightarrow> string \<Rightarrow> fault + (string \<times> nat)" where
  "re_subn p repl s =
     (if backslash \<in> set repl then Inl Template_escape else Inr (re_subn_from p repl None s))"

section \<open>Files, digests and output\<close>

text \<open>
  What the passes need from the platform: the incremental MD5 of \<open>hashlib\<close> (its start
  state, \<open>update\<close> and \<open>hexdigest\<close>) and \<open>os.linesep\<close>. Both are taken as they come, so
  every result below holds for any digest function and any line separator.
\<close>

record 'h platform =
  md5_init :: 'h
  md5_update :: "'h \<Rightarrow> string \<Rightarrow> 'h"
  md5_hexdigest :: "'h \<Rightarrow> string"
  linesep :: string

text \<open>
  \<open>calculate_file_hash\<close>: the file is read in chunks of 4096 bytes until a read returns
  nothing, each chunk is fed to the digest, and the hexadecimal digest is returned.
\<close>

function hash_chunks :: "'h platform \<Rightarrow> 'h \<Rightarrow> string \<Rightarrow> 'h" where
  "hash_chunks E md5 rest =
     (if take 4096 rest = [] then md5
      else hash_chunks E (md5_update E md5 (take 4096 rest)) (drop 4096 rest))"
  by pat_completeness auto
termination
  by (relation "measure (\<lambda>(E, md5, rest). length rest)") auto

declare hash_chunks.simps [simp del]

definition calculate_file_hash :: "'h platform \<Rightarrow> string \<Rightarrow> string" where
  "calculate_file_hash E bytes = md5_hexdigest E (hash_chunks E (md5_init E) bytes)"

text \<open>
  Reading in text mode turns each \<open>\r\n\<close> and each remaining \<open>\r\<close> into \<open>\n\<close>; no byte is
  undecodable in ISO-8859-1. Writing in text mode turns each \<open>\n\<close> into \<open>os.linesep\<close>.
\<close>

fun universal_newlines :: "string \<Rightarrow> string" where
  "universal_newlines [] = []"
| "universal_newlines [c] = [if c = CR then LF else c]"
| "universal_newlines (c # d # cs) =
     (if c = CR \<and> d = LF then LF # universal_newlines cs
      else (if c = CR then LF else c) # universal_newlines (d # cs))"

definition read_text :: "string \<Rightarrow> string" where
  "read_text bytes = universal_newlines bytes"

definition write_text :: "'h platform \<Rightarrow> string \<Rightarrow> string" where
  "write_text E content = concat (map (\<lambda>c. if c = LF then linesep E else [c]) content)"

text \<open>
  What the program does besides returning: lines given to \<open>print\<close>, lines given to
  \<open>utils.log_v\<close>, the text written back to a file, calls of \<open>utils.log\<close> with their
  message and severity, and prompts of \<open>input\<close>.
\<close>

datatype event =
    Print string | Log_v string | Write_file string | Utils_log string string | Input_prompt string

record 'r outcome =
  ret :: "fault + 'r"
  disk :: string
  trace :: "event list"

text \<open>Formatting of numbers in the messages: \<open>{n}\<close> and \<open>{n:4d}\<close>.\<close>

definition digit_char :: "nat \<Rightarrow> char" where
  "digit_char d =
     (if d = 0 then CHR ''0'' else if d = 1 then CHR ''1'' else if d = 2 then CHR ''2''
      else if d = 3 then CHR ''3'' else if d = 4 then CHR ''4'' else if d = 5 then CHR ''5''
      else if d = 6 then CHR ''6'' else if d = 7 then CHR ''7'' else if d = 8 then CHR ''8''
      else CHR ''9'')"

function str_nat :: "nat \<Rightarrow> string" where
  "str_nat n = (if n < 10 then [digit_char n] else str_nat (n div 10) @ [digit_char (n mod 10)])"
  by pat_completeness auto
termination
  by (relation "measure id") auto

declare str_nat.simps [simp del]

definition fmt_4d :: "nat \<Rightarrow> string" where
  "fmt_4d n =
     (if length (str_nat n) < 4 then replicate (4 - length (str_nat n)) CHR '' '' @ str_nat n
      else str_nat n)"

definition quoted :: "string \<Rightarrow> string" where
  "quoted s = [CHR 0x27] @ s @ [CHR 0x27]"

text \<open>\<open>str.split(sep)\<close> for a separator of one character.\<close>

fun split_on :: "char \<Rightarrow> string \<Rightarrow> string list" where
  "split_on sep [] = [[]]"
| "split_on sep (c # cs) =
     (if c = sep then [] # split_on sep cs
      else (case split_on sep cs of [] \<Rightarrow> [[c]] | part # parts \<Rightarrow> (c # part) # parts))"

section \<open>The rewrite passes\<close>

text \<open>
  A mapping table is a Python \<open>dict\<close> walked with \<open>items()\<close>: its pairs in insertion
  order. The loop over a table is the same in every pass: build the pattern for the old
  name, substitute in the working copy, log when something was replaced, add to the count.
  The passes differ in the pattern, the replacement and the logged line.
\<close>

type_synonym mapping_table = "(string \<times> string) list"

fun subn_rules ::
  "(string \<Rightarrow> pattern) \<Rightarrow> (string \<Rightarrow> string) \<Rightarrow> (nat \<Rightarrow> string \<Rightarrow> string \<Rightarrow> string) \<Rightarrow>
   mapping_table \<Rightarrow> string \<Rightarrow> nat \<Rightarrow> event list \<Rightarrow> (fault + string \<times> nat) \<times> event list" where
  "subn_rules pat rep msg [] content acc evs = (Inr (content, acc), evs)"
| "subn_rules pat rep msg ((old, new) # rules) content acc evs =
     (case re_subn (pat old) (rep new) content of
        Inl e \<Rightarrow> (Inl e, evs)
      | Inr (content', num_replacements) \<Rightarrow>
          subn_rules pat rep msg rules content' (acc + num_replacements)
            (evs @ (if num_replacements > 0 then [Log_v (msg num_replacements old new)] else [])))"

definition enum_msg :: "nat \<Rightarrow> string \<Rightarrow> string \<Rightarrow> string" where
  "enum_msg n old_const new_const =
     ''Replaced '' @ str_nat n @ '' occurance(s) of '' @ quoted old_const @ '' with '' @ quoted new_const"

text \<open>The line logged by \<open>replace_inputs\<close> names the old, dotted input twice.\<close>

definition input_msg :: "nat \<Rightarrow> string \<Rightarrow> string \<Rightarrow> string" where
  "input_msg n old_input new_input =
     ''Replaced '' @ str_nat n @ '' occurance(s) of '' @ quoted (CHR ''.'' # old_input)
       @ '' with '' @ quoted (CHR ''.'' # old_input)"

definition fb_msg :: "nat \<Rightarrow> string \<Rightarrow> string \<Rightarrow> string" where
  "fb_msg n old_fb new_fb =
     ''Replaced '' @ str_nat n @ '' instance(s) of FB '' @ quoted old_fb @ '' with '' @ quoted new_fb"

definition type_msg :: "nat \<Rightarrow> string \<Rightarrow> string \<Rightarrow> string" where
  "type_msg n old_type new_type =
     ''Replaced '' @ str_nat n @ '' instance(s) of type '' @ quoted old_type @ '' with '' @ quoted new_type"

definition enum_rules :: "mapping_table \<Rightarrow> string \<Rightarrow> (fault + string \<times> nat) \<times> event list" where
  "enum_rules enum_mapping content =
     subn_rules Literal (\<lambda>new_const. new_const) enum_msg enum_mapping content 0 []"

definition input_rules :: "mapping_table \<Rightarrow> string \<Rightarrow> (fault + string \<times> nat) \<times> event list" where
  "input_rules input_mapping content =
     subn_rules (\<lambda>old_input. Bounded (CHR ''.'' # old_input)) (\<lambda>new_input. CHR ''.'' # new_input)
       input_msg input_mapping content 0 []"

definition fb_rules :: "mapping_table \<Rightarrow> string \<Rightarrow> (fault + string \<times> nat) \<times> event list" where
  "fb_rules fb_mapping content =
     subn_rules Bounded (\<lambda>new_fb. new_fb) fb_msg fb_mapping content 0 []"

definition type_rules :: "mapping_table \<Rightarrow> string \<Rightarrow> (fault + string \<times> nat) \<times> event list" where
  "type_rules type_mapping content =
     subn_rules Bounded (\<lambda>new_type. new_type) type_msg type_mapping content 0 []"

text \<open>
  The loop of \<open>replace_fbs_and_types\<close> over the removal mapping only searches and prints;
  it leaves the working copy and the counts alone.
\<close>

definition removal_element_msg :: "string \<Rightarrow> string list \<Rightarrow> string" where
  "removal_element_msg old_fb parts =
     ''Found usage(s) of '' @ quoted old_fb @ '', the functionality is now covered by the ''
       @ ''element '' @ quoted (parts ! 1) @ '' of the FB '' @ quoted (parts ! 0) @ '' ''
       @ ''- skipping auto-replacement due to expected functionality change''"

definition removal_fb_msg :: "string \<Rightarrow> string \<Rightarrow> string" where
  "removal_fb_msg old_fb new_fb =
     ''Found usage(s) of '' @ quoted old_fb @ '', the functionality is now covered by the FB ''
       @ quoted new_fb @ ''- skipping auto-replacement due to expected functionality change''"

fun removal_notes :: "mapping_table \<Rightarrow> string \<Rightarrow> event list" where
  "removal_notes [] content = []"
| "removal_notes ((old_fb, new_fb) # rules) content =
     (if re_search (Bounded old_fb) content then
        (if CHR ''.'' \<in> set new_fb then
           [Print (removal_element_msg old_fb (split_on CHR ''.'' new_fb))]
         else [Print (removal_fb_msg old_fb new_fb)])
      else [])
     @ removal_notes rules content"

definition replace_enums ::
  "'h platform \<Rightarrow> string \<Rightarrow> string \<Rightarrow> mapping_table \<Rightarrow> (nat \<times> bool) outcome" where
  "replace_enums E file_path bytes enum_mapping =
     (let original_hash = calculate_file_hash E bytes;
          original_content = read_text bytes
      in case enum_rules enum_mapping original_content of
           (Inl e, evs) \<Rightarrow> \<lparr>ret = Inl e, disk = bytes, trace = evs\<rparr>
         | (Inr (modified_content, enum_replacements), evs) \<Rightarrow>
             if modified_content \<noteq> original_content then
               (let written = write_text E modified_content;
                    new_hash = calculate_file_hash E written
                in if original_hash = new_hash then
                     \<lparr>ret = Inr (enum_replacements, False), disk = written,
                      trace = evs @ [Write_file modified_content]\<rparr>
                   else
                     \<lparr>ret = Inr (enum_replacements, True), disk = written,
                      trace = evs @ [Write_file modified_content,
                        Print (fmt_4d enum_replacements @ '' changes written to: '' @ file_path)]\<rparr>)
             else \<lparr>ret = Inr (enum_replacements, False), disk = bytes, trace = evs\<rparr>)"

definition replace_inputs ::
  "'h platform \<Rightarrow> string \<Rightarrow> string \<Rightarrow> mapping_table \<Rightarrow> (nat \<times> bool) outcome" where
  "replace_inputs E file_path bytes input_mapping =
     (let original_hash = calculate_file_hash E bytes;
          original_content = read_text bytes
      in case input_rules input_mapping original_content of
           (Inl e, evs) \<Rightarrow> \<lparr>ret = Inl e, disk = bytes, trace = evs\<rparr>
         | (Inr (modified_content, input_replacements), evs) \<Rightarrow>
             if modified_content \<noteq> original_content then
               (let written = write_text E modified_content;
                    new_hash = calculate_file_hash E written
                in if original_hash = new_hash then
                     \<lparr>ret = Inr (input_replacements, False), disk = written,
                      trace = evs @ [Write_file modified_content]\<rparr>
                   else
                     \<lparr>ret = Inr (input_replacements, True), disk = written,
                      trace = evs @ [Write_file modified_content,
                        Print (fmt_4d input_replacements @ '' change(s) written to: '' @ file_path)]\<rparr>)
             else \<lparr>ret = Inr (input_replacements, False), disk = bytes, trace = evs\<rparr>)"

text \<open>
  The three loops of \<open>replace_fbs_and_types\<close>: function blocks, then the removal mapping
  on the working copy as the first loop left it, then types. The result is the final working
  copy with the two counts.
\<close>

definition fbs_and_types_rules ::
  "mapping_table \<Rightarrow> mapping_table \<Rightarrow> mapping_table \<Rightarrow> string \<Rightarrow>
   (fault + string \<times> nat \<times> nat) \<times> event list" where
  "fbs_and_types_rules fb_mapping type_mapping fb_removal_mapping content =
     (case fb_rules fb_mapping content of
        (Inl e, evs) \<Rightarrow> (Inl e, evs)
      | (Inr (content1, fb_replacements), evs1) \<Rightarrow>
          (let evs2 = removal_notes fb_removal_mapping content1
           in case type_rules type_mapping content1 of
                (Inl e, evs3) \<Rightarrow> (Inl e, evs1 @ evs2 @ evs3)
              | (Inr (content2, type_replacements), evs3) \<Rightarrow>
                  (Inr (content2, fb_replacements, type_replacements), evs1 @ evs2 @ evs3)))"

definition replace_fbs_and_types ::
  "'h platform \<Rightarrow> string \<Rightarrow> string \<Rightarrow> mapping_table \<Rightarrow> mapping_table \<Rightarrow> mapping_table \<Rightarrow>
   (nat \<times> nat \<times> bool) outcome" where
  "replace_fbs_and_types E file_path bytes fb_mapping type_mapping fb_removal_mapping =
     (let original_hash = calculate_file_hash E bytes;
          original_content = read_text bytes
      in case fbs_and_types_rules fb_mapping type_mapping fb_removal_mapping original_content of
           (Inl e, evs) \<Rightarrow> \<lparr>ret = Inl e, disk = bytes, trace = evs\<rparr>
         | (Inr (modified_content, fb_replacements, type_replacements), evs) \<Rightarrow>
             if modified_content \<noteq> original_content then
               (let written = write_text E modified_content;
                    new_hash = calculate_file_hash E written
                in if original_hash = new_hash then
                     \<lparr>ret = Inr (fb_replacements, type_replacements, False), disk = written,
                      trace = evs @ [Write_file modified_content]\<rparr>
                   else
                     \<lparr>ret = Inr (fb_replacements, type_replacements, True), disk = written,
                      trace = evs @ [Write_file modified_content,
                        Print (fmt_4d (fb_replacements + type_replacements)
                               @ '' change(s) written to: '' @ file_path)]\<rparr>)
             else \<lparr>ret = Inr (fb_replacements, type_replacements, False), disk = bytes,
                   trace = evs\<rparr>)"

text \<open>
  A digest that is the content itself, and the line separator of POSIX: a platform on which
  the passes can be run on concrete files.
\<close>

definition posix_plain :: "string platform" where
  "posix_plain = \<lparr>md5_init = [], md5_update = (\<lambda>md5 chunk. md5 @ chunk),
                   md5_hexdigest = (\<lambda>md5. md5), linesep = [LF]\<rparr>"

section \<open>The parallel file scanner\<close>

text \<open>
  An extraction function has a name (\<open>func.__name__\<close>) and, called with a path and the
  extra arguments, returns a list of records or raises; \<open>None\<close> is the raise. The argument
  \<open>process_functions\<close> is either one function or a list of functions.
\<close>

type_synonym path = string

datatype ('a, 'r) func = Func (func_name: string) (call: "path \<Rightarrow> 'a \<Rightarrow> 'r list option")

datatype ('a, 'r) process_functions = Single "('a, 'r) func" | Several "('a, 'r) func list"

datatype 'r scan_result = Flat "'r list" | Keyed "(string \<times> 'r list) list"

text \<open>
  The directory tree is the answer of \<open>root_dir.rglob\<close> to a pattern: the paths it finds,
  each with the answer of \<open>is_file\<close>. The list of file paths is built for each extension in
  turn and the lists are put one after the other.
\<close>

definition file_paths :: "(string \<Rightarrow> (path \<times> bool) list) \<Rightarrow> string list \<Rightarrow> path list" where
  "file_paths rglob extensions =
     concat (map (\<lambda>ext. map fst (filter snd (rglob (CHR ''*'' # ext)))) extensions)"

text \<open>
  A Python \<open>dict\<close> with string keys is a list of pairs with distinct keys, in insertion
  order; \<open>d[k] = v\<close> is \<^const>\<open>AList.update\<close>, which replaces in place or appends.
\<close>

definition init_results :: "('a, 'r) func list \<Rightarrow> (string \<times> 'r list) list" where
  "init_results process_functions =
     foldl (\<lambda>results func. AList.update (func_name func) [] results) [] process_functions"

fun process_file ::
  "('a, 'r) func list \<Rightarrow> 'a \<Rightarrow> path \<Rightarrow> (string \<times> 'r list) list \<Rightarrow> (string \<times> 'r list) list option" where
  "process_file [] args path file_results = Some file_results"
| "process_file (func # funcs) args path file_results =
     (case call func path args of
        None \<Rightarrow> None
      | Some result \<Rightarrow> process_file funcs args path (AList.update (func_name func) result file_results))"

text \<open>
  The loop over the results of one file: \<open>results[func_name].extend(result)\<close>, where a
  missing key would raise.
\<close>

fun extend_results ::
  "(string \<times> 'r list) list \<Rightarrow> (string \<times> 'r list) list \<Rightarrow> (string \<times> 'r list) list option" where
  "extend_results [] results = Some results"
| "extend_results ((name, result) # func_results) results =
     (case map_of results name of
        None \<Rightarrow> None
      | Some sofar \<Rightarrow> extend_results func_results (AList.update name (sofar @ result) results))"

text \<open>
  The loop over the futures in the order in which they complete; \<open>future.result()\<close> raises
  what the task raised.
\<close>

fun consume ::
  "('a, 'r) func list \<Rightarrow> 'a \<Rightarrow> path list \<Rightarrow> (string \<times> 'r list) list \<Rightarrow> (string \<times> 'r list) list option" where
  "consume process_functions args [] results = Some results"
| "consume process_functions args (path # completed) results =
     (case process_file process_functions args path [] of
        None \<Rightarrow> None
      | Some func_results \<Rightarrow>
          (case extend_results func_results results of
             None \<Rightarrow> None
           | Some results' \<Rightarrow> consume process_functions args completed results'))"

text \<open>
  One task is submitted for each entry of the list of file paths. The order in which the
  tasks complete is up to the thread pool: \<open>completion\<close> rearranges the list of submitted
  tasks into that order.
\<close>

definition scan_files_parallel ::
  "(string \<Rightarrow> (path \<times> bool) list) \<Rightarrow> (path list \<Rightarrow> path list) \<Rightarrow> string list \<Rightarrow>
   ('a, 'r) process_functions \<Rightarrow> 'a \<Rightarrow> 'r scan_result option" where
  "scan_files_parallel rglob completion extensions process_functions args =
     (let single_function_mode = (case process_functions of Single f \<Rightarrow> True | Several fs \<Rightarrow> False);
          funcs = (case process_functions of Single f \<Rightarrow> [f] | Several fs \<Rightarrow> fs);
          results = init_results funcs;
          paths = file_paths rglob extensions
      in case consume funcs args (completion paths) results of
           None \<Rightarrow> None
         | Some results' \<Rightarrow>
             if single_function_mode then
               (case map_of results' (func_name (hd funcs)) of
                  None \<Rightarrow> None
                | Some flat \<Rightarrow> Some (Flat flat))
             else Some (Keyed results'))"

text \<open>What a function returns for a file, where it returns.\<close>

definition returned :: "('a, 'r) func \<Rightarrow> 'a \<Rightarrow> path \<Rightarrow> 'r list" where
  "returned func args path = (case call func path args of None \<Rightarrow> [] | Some result \<Rightarrow> result)"

text \<open>
  A directory tree given by its entries, for patterns made of \<open>*\<close> and a literal suffix:
  such a pattern finds the entries whose last path component ends with the suffix.
\<close>

definition basename :: "path \<Rightarrow> string" where
  "basename p = rev (takeWhile (\<lambda>c. c \<noteq> CHR ''/'') (rev p))"

definition dirname :: "path \<Rightarrow> string" where
  "dirname p =
     (let head = rev (dropWhile (\<lambda>c. c \<noteq> CHR ''/'') (rev p))
      in if head \<noteq> [] \<and> head \<noteq> replicate (length head) CHR ''/''
         then rev (dropWhile (\<lambda>c. c = CHR ''/'') (rev head)) else head)"

definition rglob_tree :: "(path \<times> bool) list \<Rightarrow> string \<Rightarrow> (path \<times> bool) list" where
  "rglob_tree tree pattern =
     (case pattern of
        [] \<Rightarrow> []
      | c # ext \<Rightarrow> if c = CHR ''*'' then filter (\<lambda>(p, is_file). suffix ext (basename p)) tree else [])"

section \<open>The hardware check\<close>

text \<open>
  \<open>re.findall(r'<Module [^>]*Type="([^"]+)"', content)\<close>. After \<open><Module \<close> the
  pattern takes as many characters other than \<open>>\<close> as it can and gives them back one at a
  time until \<open>Type="\<close>, a non-empty run of characters other than the double quote, and a
  double quote follow. The value of a match is that run; the search goes on after the match.
\<close>

definition dquote :: char where
  "dquote = CHR 0x22"

definition type_attr_at :: "string \<Rightarrow> (string \<times> nat) option" where
  "type_attr_at s =
     (if prefix (''Type='' @ [dquote]) s then
        (let hw_type = takeWhile (\<lambda>c. c \<noteq> dquote) (drop 6 s)
         in if hw_type \<noteq> [] \<and> drop (6 + length hw_type) s \<noteq> []
            then Some (hw_type, 6 + length hw_type + 1) else None)
      else None)"

fun module_backtrack :: "string \<Rightarrow> nat \<Rightarrow> (string \<times> nat) option" where
  "module_backtrack rest 0 = type_attr_at rest"
| "module_backtrack rest (Suc j) =
     (case type_attr_at (drop (Suc j) rest) of
        Some (hw_type, k) \<Rightarrow> Some (hw_type, Suc j + k)
      | None \<Rightarrow> module_backtrack rest j)"

definition module_at :: "string \<Rightarrow> (string \<times> nat) option" where
  "module_at s =
     (if prefix ''<Module '' s then
        (let rest = drop 8 s
         in case module_backtrack rest (length (takeWhile (\<lambda>c. c \<noteq> CHR ''>'') rest)) of
              Some (hw_type, k) \<Rightarrow> Some (hw_type, 8 + k)
            | None \<Rightarrow> None)
      else None)"

text \<open>\<open>inside\<close> counts the characters of the last match that are still to be passed.\<close>

fun findall_from :: "nat \<Rightarrow> string \<Rightarrow> string list" where
  "findall_from inside [] = []"
| "findall_from (Suc inside) (c # cs) = findall_from inside cs"
| "findall_from 0 (c # cs) =
     (case module_at (c # cs) of
        Some (hw_type, k) \<Rightarrow> hw_type # findall_from (k - 1) cs
      | None \<Rightarrow> findall_from 0 cs)"

definition findall_modules :: "string \<Rightarrow> string list" where
  "findall_modules content = findall_from 0 content"

text \<open>
  The catalog is the \<open>dict\<close> from a reason to the list of identifiers it covers. A match
  record is \<open>(hw_type, reason, file_path)\<close>. \<open>process_hw_file\<close> adds the records to a set
  and returns \<open>list(results)\<close>: the records without repetition, in the order in which the
  set hands them out, which is \<open>set_order\<close> here. \<open>read_file\<close> is \<open>utils.read_file\<close>.
\<close>

type_synonym catalog = "(string \<times> string list) list"

type_synonym match_record = "string \<times> string \<times> path"

definition added_records :: "path \<Rightarrow> catalog \<Rightarrow> string list \<Rightarrow> match_record list" where
  "added_records file_path hardware_dict matches =
     concat (map (\<lambda>hw_type.
       concat (map (\<lambda>(reason, items). if hw_type \<in> set items then [(hw_type, reason, file_path)] else [])
                 hardware_dict)) matches)"

definition process_hw_file ::
  "(path \<Rightarrow> string) \<Rightarrow> (match_record list \<Rightarrow> match_record list) \<Rightarrow> path \<Rightarrow> catalog \<Rightarrow>
   match_record list option" where
  "process_hw_file read_file set_order file_path hardware_dict =
     (let content = read_file file_path;
          matches = findall_modules content
      in Some (set_order (remdups (added_records file_path hardware_dict matches))))"

text \<open>
  The grouping of \<open>check_hardware\<close>: \<open>setdefault\<close> makes the entry of an identifier with
  the reason of the record at hand when there is none yet, and the configuration name of
  the record is appended to the entry's list.
\<close>

type_synonym grouped = "(string \<times> (string \<times> string list)) list"

definition setdefault :: "string \<Rightarrow> string \<times> string list \<Rightarrow> grouped \<Rightarrow> grouped" where
  "setdefault k v d = (case map_of d k of None \<Rightarrow> AList.update k v d | Some entry \<Rightarrow> d)"

definition append_config :: "string \<Rightarrow> string \<Rightarrow> grouped \<Rightarrow> grouped" where
  "append_config k config_name d =
     (case map_of d k of
        None \<Rightarrow> d
      | Some (reason, configs) \<Rightarrow> AList.update k (reason, configs @ [config_name]) d)"

fun group_results :: "match_record list \<Rightarrow> grouped \<Rightarrow> grouped" where
  "group_results [] grouped_results = grouped_results"
| "group_results ((hardware_id, reason, file_path) # hardware_results) grouped_results =
     (let config_name = basename (dirname file_path)
      in group_results hardware_results
           (append_config hardware_id config_name
              (setdefault hardware_id (reason, []) grouped_results)))"

text \<open>The text of the report: \<open>sep.join\<close>, one entry, and all entries after the heading.\<close>

fun join :: "string \<Rightarrow> string list \<Rightarrow> string" where
  "join sep [] = []"
| "join sep [x] = x"
| "join sep (x # y # ys) = x @ sep @ join sep (y # ys)"

definition entry_text :: "string \<times> (string \<times> string list) \<Rightarrow> string" where
  "entry_text entry =
     (case entry of (hardware_id, reason, configs) \<Rightarrow>
        [LF, LF] @ ''- '' @ hardware_id @ '': '' @ reason
        @ [LF] @ ''  Used in configurations: '' @ join '', '' (sort (take 3 configs))
        @ (if length configs > 3 then '', and '' @ str_nat (length configs - 3) @ '' more...''
           else []))"

definition hardware_report :: "grouped \<Rightarrow> string" where
  "hardware_report grouped_results =
     foldl (\<lambda>output entry. output @ entry_text entry)
       ''The following unsupported hardware were found:'' grouped_results"

text \<open>
  \<open>check_hardware\<close> with what it hands to \<open>log\<close>. The first call prints a rule of box
  drawing characters, which are outside Latin-1, and a heading: the event \<open>Banner\<close>.
  \<open>loaded\<close> is what \<open>json.load\<close> gives for the catalog file, \<open>None\<close> when opening or
  parsing it raises; then the catalog is empty and an error is logged.
\<close>

datatype log_call = Banner | Load_error | Log string string string

definition load_discontinuation_info :: "catalog option \<Rightarrow> catalog \<times> log_call list" where
  "load_discontinuation_info loaded =
     (case loaded of Some info \<Rightarrow> (info, []) | None \<Rightarrow> ([], [Load_error]))"

definition check_hardware ::
  "(string \<Rightarrow> (path \<times> bool) list) \<Rightarrow> (path list \<Rightarrow> path list) \<Rightarrow> (path \<Rightarrow> string) \<Rightarrow>
   (match_record list \<Rightarrow> match_record list) \<Rightarrow> catalog option \<Rightarrow> bool \<Rightarrow> log_call list option" where
  "check_hardware rglob completion read_file set_order loaded verbose =
     (case load_discontinuation_info loaded of (unsupported_hardware, load_log) \<Rightarrow>
        (case scan_files_parallel rglob completion [''.hw'']
                (Single (Func ''process_hw_file'' (process_hw_file read_file set_order)))
                unsupported_hardware of
           None \<Rightarrow> None
         | Some (Keyed results) \<Rightarrow> None
         | Some (Flat hardware_results) \<Rightarrow>
             Some ([Banner] @ load_log @
               (if hardware_results \<noteq> [] then
                  [Log (hardware_report (group_results hardware_results [])) ''AS4'' ''WARNING'']
                else if verbose then
                  [Log ''No unsupported hardware found in the project.'' [] ''INFO'']
                else []))))"

section \<open>The mapping tables of \<open>main\<close>\<close>

text \<open>The tables that \<open>main\<close> hands to the passes, pair by pair in the order of the source.\<close>

definition main_input_mapping :: mapping_table where
  "main_input_mapping =
     [(''Parameter.AxesGroup'', ''Parameter.Component''),
      (''StandBy'', ''Standby''),
      (''DataAdress'', ''DataAddress''),
      (''Info.AutoTuneDone'', ''AutoTuneDone''),
      (''Info.MechDeviationCompState'', ''Info.AxisAdditionalInfo.MechDeviationCompState''),
      (''Info.AutoTuneState'', ''Info.AxisAdditionalInfo.AutoTuneState''),
      (''Info.CommunicationState'', ''Info.AxisAdditionalInfo.CommunicationState''),
      (''Info.StartupCount'', ''Info.AxisAdditionalInfo.StartupCount''),
      (''Info.DigitalInputStatus'', ''Info.AxisAdditionalInfo.DigitalInputStatus''),
      (''Info.PLCopenState'', ''Info.AxisAdditionalInfo.PLCopenState''),
      (''Info.ActualOffsetShift'', ''Info.Offset.ActualShift''),
      (''Info.OffsetValid'', ''Info.Offset.Valid''),
      (''Info.ActualPhaseShift'', ''Info.Phasing.ActualShift''),
      (''Info.PhasingValid'', ''Info.Phasing.Valid''),
      (''Common.AdvancedParameters.StartStateParam.StartState'', ''Common.StartStateParam.StartState''),
      (''Common.AdvancedParameters.StartStateParam.MasterStartRelPos'', ''Common.StartStateParam.MasterStartPositionInCam''),
      (''CompensationParameters.MasterCamLeadIn'', ''AdvancedParameters.MasterCamLeadIn''),
      (''AdvancedParameters.ShuttleIndex'', ''AdvancedParameters.ShuttleID''),
      (''AssemblyInfo.ShuttlesCount'', ''AssemblyInfo.ShuttleCount.Count''),
      (''AssemblyInfo.ShuttlesInStandstillCount'', ''AssemblyInfo.ShuttleCount.InStandstill''),
      (''AssemblyInfo.ShuttlesInDisabledCount'', ''AssemblyInfo.ShuttleCount.InDisabled''),
      (''AssemblyInfo.ShuttlesInStoppingCount'', ''AssemblyInfo.ShuttleCount.InStopping''),
      (''AssemblyInfo.ShuttlesInErrorStopCount'', ''AssemblyInfo.ShuttleCount.InErrorStop''),
      (''AssemblyInfo.VirtualShuttlesCount'', ''AssemblyInfo.ShuttleCount.VirtualShuttles''),
      (''AssemblyInfo.ConvoysCount'', ''AssemblyInfo.ShuttleCount.Convoys''),
      (''AssemblyInfo.SegmentsInDisabledCount'', ''AssemblyInfo.SegmentCount.SegmentsInDisabled''),
      (''AssemblyInfo.SegmentsInStoppingCount'', ''AssemblyInfo.SegmentCount.SegmentsInStopping''),
      (''AssemblyInfo.SegmentsInErrorStopCount'', ''AssemblyInfo.SegmentCount.SegmentsInErrorStop''),
      (''Distance.Junction'', ''Distance.Diverter'')]"


definition main_type_mapping :: mapping_table where
  "main_type_mapping =
     [(''MpAxisCouplingRecoveryParType'', ''MpAxisRecoveryParType''),
      (''MpAxisSequencerRecoveryParType'', ''MpAxisRecoveryParType''),
      (''McAcpAxCamAutDefineType'', ''McCamAutDefineType''),
      (''McAcpTrakAdvSecAddShWithMovType'', ''McAcpTrakAdvSecAddShuttleType'')]"

definition main_fb_mapping :: mapping_table where
  "main_fb_mapping =
     [(''MC_BR_CamAutomatSetPar_AcpAx'', ''MC_BR_CamAutomatSetPar''),
      (''MC_BR_CamAutomatGetPar_AcpAx'', ''MC_BR_CamAutomatGetPar''),
      (''MC_BR_ShSetUserId_AcpTrak'', ''MC_BR_ShSetUserID_AcpTrak''),
      (''MC_BR_TrgPointGetInfo_AcpTrak'', ''MC_BR_TrgPointReadInfo_AcpTrak''),
      (''MC_BR_SecAddShWithMov_AcpTrak'', ''MC_BR_SecAddShuttle_AcpTrak''),
      (''MC_BR_AsmGetShuttleSel_AcpTrak'', ''MC_BR_AsmGetShuttle_AcpTrak''),
      (''MC_BR_SecGetShuttleSel_AcpTrak'', ''MC_BR_SecGetShuttle_AcpTrak'')]"

definition main_fb_removal_mapping :: mapping_table where
  "main_fb_removal_mapping =
     [(''MC_BR_AsmSegGrpPowerOn_AcpTrak'', ''MC_BR_AsmPowerOn_AcpTrak.SegmentGroup''),
      (''MC_BR_AsmSegGrpPowerOff_AcpTrak'', ''MC_BR_AsmPowerOff_AcpTrak.SegmentGroup'')]"

definition main_enum_mapping :: mapping_table where
  "main_enum_mapping =
     [(''mcAFDCSACOPOSMULTIDO_SS1X111'', ''mcAFDCSACOPOSMULTIDO_SS2X111''),
      (''mcAFDCSACOPOSMULTIDO_SS1X113'', ''mcAFDCSACOPOSMULTIDO_SS2X113''),
      (''mcAFDCSACOPOSMULTIDO_SS1X115'', ''mcAFDCSACOPOSMULTIDO_SS2X115''),
      (''mcAFDCSACOPOSMULTIDO_SS1X116'', ''mcAFDCSACOPOSMULTIDO_SS2X116'')]"


section \<open>The migration run\<close>

text \<open>
  What \<open>main\<close> sees of the project: whether the project path exists, what
  \<open>glob("*.apj")\<close> finds there, the content of \<open>Logical/Libraries/Package.pkg\<close> when it
  is a file, what \<open>os.walk\<close> yields for the \<open>Logical\<close> directory (each directory with
  its file names), and the bytes of every file. The project path is given as \<open>Path\<close>
  prints it. \<open>answer\<close> is what \<open>input(message).strip().lower()\<close> gives on a terminal,
  \<open>None\<close> when standard input is no terminal.
\<close>

record project =
  path_exists :: bool
  apj_glob :: "path list"
  package_pkg :: "string option"
  logical_walk :: "(path \<times> string list) list"
  file_bytes :: "path \<Rightarrow> string"

























section \<open>Vocabulary of the properties\<close>

text \<open>
  No old name of the table occurs anywhere in the content; no replacement of the table
  holds a backslash, so each one is a template that stands for itself.
\<close>

definition no_key_occurs :: "mapping_table \<Rightarrow> string \<Rightarrow> bool" where
  "no_key_occurs table content = (\<forall>(old, new) \<in> set table. \<not> sublist old content)"

definition literal_templates :: "mapping_table \<Rightarrow> bool" where
  "literal_templates table = (\<forall>(old, new) \<in> set table. backslash \<notin> set new)"






text \<open>The calls of \<open>utils.log\<close> with a given severity among the events of a run.\<close>

definition logged_at :: "string \<Rightarrow> event list \<Rightarrow> event list" where
  "logged_at severity evs =
     filter (\<lambda>e. case e of Utils_log message s \<Rightarrow> s = severity | _ \<Rightarrow> False) evs"


text \<open>
  For an identifier and a list of match records: the configuration folder names of the
  records of that identifier, in the order of the records, and the reason of the first
  record of that identifier.
\<close>

definition configs_of :: "string \<Rightarrow> match_record list \<Rightarrow> string list" where
  "configs_of hardware_id records =
     map (\<lambda>(h, reason, file_path). basename (dirname file_path))
       (filter (\<lambda>(h, reason, file_path). h = hardware_id) records)"

definition first_reason :: "string \<Rightarrow> match_record list \<Rightarrow> string option" where
  "first_reason hardware_id records =
     map_option (\<lambda>(h, reason, file_path). reason)
       (find (\<lambda>(h, reason, file_path). h = hardware_id) records)"

section \<open>Small concrete inputs\<close>

text \<open>
  Extraction functions and a directory tree on which the scanner is run below: a function
  that returns the path it is given, one that returns the last component of the path, and
  the second one again under the name of the first.
\<close>

definition extract_path :: "(unit, string) func" where
  "extract_path = Func ''extract_path'' (\<lambda>path args. Some [path])"

definition extract_base :: "(unit, string) func" where
  "extract_base = Func ''extract_base'' (\<lambda>path args. Some [basename path])"

definition extract_base_renamed :: "(unit, string) func" where
  "extract_base_renamed = Func ''extract_path'' (\<lambda>path args. Some [basename path])"

definition small_tree :: "(path \<times> bool) list" where
  "small_tree = [(''cfgA/a.hw'', True), (''cfgB/b.hw'', True), (''cfgB/dir.hw'', False),
                 (''cfgB/notes.txt'', True)]"

text \<open>
  A catalog that lists one identifier under two reasons, a disk on which every file holds
  one module of that type, the tree of four configurations that use it, and their records
  in the order in which they arrive when the tasks complete last to first.
\<close>

definition catalog_two_reasons :: catalog where
  "catalog_two_reasons = [(''EOL'', [''X100'']), (''Replaced'', [''X100'', ''X200''])]"

definition one_module_disk :: "path \<Rightarrow> string" where
  "one_module_disk file_path =
     ''<Module Name='' @ [dquote] @ ''IF1'' @ [dquote] @ '' Type='' @ [dquote] @ ''X100'' @ [dquote] @ '' />''"

definition four_config_tree :: "(path \<times> bool) list" where
  "four_config_tree =
     [(''Physical/cfgA/Hardware.hw'', True), (''Physical/cfgB/Hardware.hw'', True),
      (''Physical/cfgC/Hardware.hw'', True), (''Physical/cfgD/Hardware.hw'', True)]"

definition four_config_records :: "match_record list" where
  "four_config_records =
     [(''X100'', ''EOL'', ''Physical/cfgD/Hardware.hw''), (''X100'', ''EOL'', ''Physical/cfgC/Hardware.hw''),
      (''X100'', ''EOL'', ''Physical/cfgB/Hardware.hw''), (''X100'', ''EOL'', ''Physical/cfgA/Hardware.hw'')]"





section \<open>Properties of the rewrite passes\<close>

subsection \<open>The digest guard after the write-back\<close>

text \<open>
  Claim C2. In each of the three passes (enumerators, inputs, function blocks and types):
  when the working copy after all substitutions differs from the content that was read, the
  pass writes the working copy back and computes the digest of the file again; when that
  digest equals the digest taken before, the pass returns \<open>changed = False\<close> together
  with the replacement count (both counts, for function blocks and types) it has added up.
\<close>

theorem noop_guard_reports_unchanged:
  "(enum_rules enum_mapping (read_text bytes) = (Inr (modified, n), evs)
      \<and> modified \<noteq> read_text bytes
      \<and> calculate_file_hash E (write_text E modified) = calculate_file_hash E bytes
    \<longrightarrow> replace_enums E file_path bytes enum_mapping
          = \<lparr>ret = Inr (n, False), disk = write_text E modified,
             trace = evs @ [Write_file modified]\<rparr>)
   \<and> (input_rules input_mapping (read_text bytes) = (Inr (modified, n), evs)
      \<and> modified \<noteq> read_text bytes
      \<and> calculate_file_hash E (write_text E modified) = calculate_file_hash E bytes
    \<longrightarrow> replace_inputs E file_path bytes input_mapping
          = \<lparr>ret = Inr (n, False), disk = write_text E modified,
             trace = evs @ [Write_file modified]\<rparr>)
   \<and> (fbs_and_types_rules fb_mapping type_mapping fb_removal_mapping (read_text bytes)
        = (Inr (modified, fb_n, type_n), evs)
      \<and> modified \<noteq> read_text bytes
      \<and> calculate_file_hash E (write_text E modified) = calculate_file_hash E bytes
    \<longrightarrow> replace_fbs_and_types E file_path bytes fb_mapping type_mapping fb_removal_mapping
          = \<lparr>ret = Inr (fb_n, type_n, False), disk = write_text E modified,
             trace = evs @ [Write_file modified]\<rparr>)"
  by (simp add: replace_enums_def replace_inputs_def replace_fbs_and_types_def Let_def)

text \<open>
  The guard is reached on real files. A file that ends its line with a lone carriage return
  is read with a line feed in its place; a rule that turns the line feed into a carriage
  return makes the working copy differ from what was read, and the bytes written are the
  bytes that were there. The three runs below are of this kind.
\<close>

theorem noop_guard_reports_unchanged_witness:
  "replace_enums posix_plain ''prog.st'' [CHR ''a'', CR] [([LF], [CR])]
     = \<lparr>ret = Inr (1, False), disk = [CHR ''a'', CR],
        trace = [Log_v (enum_msg 1 [LF] [CR]), Write_file [CHR ''a'', CR]]\<rparr>
   \<and> replace_inputs posix_plain ''prog.st'' [CHR ''a'', CHR ''.'', CHR ''x'', CR, CHR ''b'']
         [([CHR ''x'', LF], [CHR ''x'', CR])]
     = \<lparr>ret = Inr (1, False), disk = [CHR ''a'', CHR ''.'', CHR ''x'', CR, CHR ''b''],
        trace = [Log_v (input_msg 1 [CHR ''x'', LF] [CHR ''x'', CR]),
                 Write_file [CHR ''a'', CHR ''.'', CHR ''x'', CR, CHR ''b'']]\<rparr>
   \<and> replace_fbs_and_types posix_plain ''decl.typ'' [CHR ''x'', CR, CHR ''y'']
         [([CHR ''x'', LF, CHR ''y''], [CHR ''x'', CR, CHR ''y''])] [] []
     = \<lparr>ret = Inr (1, 0, False), disk = [CHR ''x'', CR, CHR ''y''],
        trace = [Log_v (fb_msg 1 [CHR ''x'', LF, CHR ''y''] [CHR ''x'', CR, CHR ''y'']),
                 Write_file [CHR ''x'', CR, CHR ''y'']]\<rparr>"
proof -
  have e1: "enum_rules [([LF], [CR])] (read_text [CHR ''a'', CR])
              = (Inr ([CHR ''a'', CR], 1), [Log_v (enum_msg 1 [LF] [CR])])"
    by code_simp
  have e2: "[CHR ''a'', CR] \<noteq> read_text [CHR ''a'', CR]"
    by code_simp
  have e3: "write_text posix_plain [CHR ''a'', CR] = [CHR ''a'', CR]"
    by code_simp
  have i1: "input_rules [([CHR ''x'', LF], [CHR ''x'', CR])]
              (read_text [CHR ''a'', CHR ''.'', CHR ''x'', CR, CHR ''b''])
              = (Inr ([CHR ''a'', CHR ''.'', CHR ''x'', CR, CHR ''b''], 1),
                 [Log_v (input_msg 1 [CHR ''x'', LF] [CHR ''x'', CR])])"
    by code_simp
  have i2: "[CHR ''a'', CHR ''.'', CHR ''x'', CR, CHR ''b'']
              \<noteq> read_text [CHR ''a'', CHR ''.'', CHR ''x'', CR, CHR ''b'']"
    by code_simp
  have i3: "write_text posix_plain [CHR ''a'', CHR ''.'', CHR ''x'', CR, CHR ''b'']
              = [CHR ''a'', CHR ''.'', CHR ''x'', CR, CHR ''b'']"
    by code_simp
  have f1: "fbs_and_types_rules [([CHR ''x'', LF, CHR ''y''], [CHR ''x'', CR, CHR ''y''])] [] []
              (read_text [CHR ''x'', CR, CHR ''y''])
              = (Inr ([CHR ''x'', CR, CHR ''y''], 1, 0),
                 [Log_v (fb_msg 1 [CHR ''x'', LF, CHR ''y''] [CHR ''x'', CR, CHR ''y''])])"
    by code_simp
  have f2: "[CHR ''x'', CR, CHR ''y''] \<noteq> read_text [CHR ''x'', CR, CHR ''y'']"
    by code_simp
  have f3: "write_text posix_plain [CHR ''x'', CR, CHR ''y''] = [CHR ''x'', CR, CHR ''y'']"
    by code_simp
  have A: "replace_enums posix_plain ''prog.st'' [CHR ''a'', CR] [([LF], [CR])]
     = \<lparr>ret = Inr (1, False), disk = [CHR ''a'', CR],
        trace = [Log_v (enum_msg 1 [LF] [CR]), Write_file [CHR ''a'', CR]]\<rparr>"
    using noop_guard_reports_unchanged
            [where E = posix_plain and bytes = "[CHR ''a'', CR]" and enum_mapping = "[([LF], [CR])]"
               and modified = "[CHR ''a'', CR]" and n = 1
               and evs = "[Log_v (enum_msg 1 [LF] [CR])]" and file_path = "''prog.st''",
             THEN conjunct1]
          e1 e2 e3
    by simp
  have B: "replace_inputs posix_plain ''prog.st'' [CHR ''a'', CHR ''.'', CHR ''x'', CR, CHR ''b'']
         [([CHR ''x'', LF], [CHR ''x'', CR])]
     = \<lparr>ret = Inr (1, False), disk = [CHR ''a'', CHR ''.'', CHR ''x'', CR, CHR ''b''],
        trace = [Log_v (input_msg 1 [CHR ''x'', LF] [CHR ''x'', CR]),
                 Write_file [CHR ''a'', CHR ''.'', CHR ''x'', CR, CHR ''b'']]\<rparr>"
    using noop_guard_reports_unchanged
            [where E = posix_plain and bytes = "[CHR ''a'', CHR ''.'', CHR ''x'', CR, CHR ''b'']"
               and input_mapping = "[([CHR ''x'', LF], [CHR ''x'', CR])]"
               and modified = "[CHR ''a'', CHR ''.'', CHR ''x'', CR, CHR ''b'']" and n = 1
               and evs = "[Log_v (input_msg 1 [CHR ''x'', LF] [CHR ''x'', CR])]"
               and file_path = "''prog.st''",
             THEN conjunct2, THEN conjunct1]
          i1 i2 i3
    by simp
  have C: "replace_fbs_and_types posix_plain ''decl.typ'' [CHR ''x'', CR, CHR ''y'']
         [([CHR ''x'', LF, CHR ''y''], [CHR ''x'', CR, CHR ''y''])] [] []
     = \<lparr>ret = Inr (1, 0, False), disk = [CHR ''x'', CR, CHR ''y''],
        trace = [Log_v (fb_msg 1 [CHR ''x'', LF, CHR ''y''] [CHR ''x'', CR, CHR ''y'']),
                 Write_file [CHR ''x'', CR, CHR ''y'']]\<rparr>"
    using noop_guard_reports_unchanged
            [where E = posix_plain and bytes = "[CHR ''x'', CR, CHR ''y'']"
               and fb_mapping = "[([CHR ''x'', LF, CHR ''y''], [CHR ''x'', CR, CHR ''y''])]"
               and type_mapping = "[]" and fb_removal_mapping = "[]"
               and modified = "[CHR ''x'', CR, CHR ''y'']" and fb_n = 1 and type_n = 0
               and evs = "[Log_v (fb_msg 1 [CHR ''x'', LF, CHR ''y''] [CHR ''x'', CR, CHR ''y''])]"
               and file_path = "''decl.typ''",
             THEN conjunct2, THEN conjunct2]
          f1 f2 f3
    by simp
  from A B C show ?thesis
    by simp
qed

subsection \<open>Files without any old name\<close>

lemma matches_here_prefix: "matches_here p prev s \<Longrightarrow> prefix (pattern_text p) s"
  by (cases p) simp_all

lemma re_search_from_sublist: "re_search_from p prev s \<Longrightarrow> sublist (pattern_text p) s"
proof (induction s arbitrary: prev)
  case Nil
  then show ?case
    by (auto dest: matches_here_prefix)
next
  case (Cons c cs)
  from Cons.prems have "matches_here p prev (c # cs) \<or> re_search_from p (Some c) cs"
    by simp
  then show ?case
  proof
    assume "matches_here p prev (c # cs)"
    then show ?thesis
      by (blast dest: matches_here_prefix intro: prefix_imp_sublist)
  next
    assume "re_search_from p (Some c) cs"
    then have "sublist (pattern_text p) cs"
      by (rule Cons.IH)
    then show ?thesis
      by (simp add: sublist_Cons_right)
  qed
qed

lemma re_subn_from_no_match:
  "\<not> re_search_from p prev s \<Longrightarrow> re_subn_from p repl prev s = (s, 0)"
proof (induction s arbitrary: prev)
  case Nil
  then show ?case
    by (subst re_subn_from.simps) simp
next
  case (Cons c cs)
  then show ?case
    by (subst re_subn_from.simps) simp
qed

lemma subn_rules_no_match:
  "\<forall>(old, new) \<in> set rules. \<not> re_search (pat old) content \<and> backslash \<notin> set (rep new)
   \<Longrightarrow> subn_rules pat rep msg rules content acc evs = (Inr (content, acc), evs)"
  by (induction rules) (auto simp: re_subn_def re_search_def re_subn_from_no_match)

lemma removal_notes_no_match:
  "\<forall>(old, new) \<in> set rules. \<not> re_search (Bounded old) content \<Longrightarrow> removal_notes rules content = []"
  by (induction rules) auto

lemma sublist_tl: "sublist (c # old) s \<Longrightarrow> sublist old s"
proof -
  assume "sublist (c # old) s"
  then obtain ps ss where "s = ps @ (c # old) @ ss"
    by (auto simp: sublist_def)
  then have "s = (ps @ [c]) @ old @ ss"
    by simp
  then show ?thesis
    unfolding sublist_def by blast
qed

lemma no_key_no_search:
  assumes "no_key_occurs table content" and "(old, new) \<in> set table"
  shows "\<not> re_search (Literal old) content" and "\<not> re_search (Bounded old) content"
    and "\<not> re_search (Bounded (CHR ''.'' # old)) content"
proof -
  from assms have n: "\<not> sublist old content"
    by (auto simp: no_key_occurs_def)
  show "\<not> re_search (Literal old) content"
    using n re_search_from_sublist [of "Literal old" None content] by (auto simp: re_search_def)
  show "\<not> re_search (Bounded old) content"
    using n re_search_from_sublist [of "Bounded old" None content] by (auto simp: re_search_def)
  show "\<not> re_search (Bounded (CHR ''.'' # old)) content"
    using n re_search_from_sublist [of "Bounded (CHR ''.'' # old)" None content]
    by (auto simp: re_search_def dest: sublist_tl)
qed

lemma enum_rules_untouched:
  "no_key_occurs t content \<Longrightarrow> literal_templates t \<Longrightarrow> enum_rules t content = (Inr (content, 0), [])"
  unfolding enum_rules_def
  by (rule subn_rules_no_match) (auto simp: literal_templates_def dest: no_key_no_search)

lemma fb_rules_untouched:
  "no_key_occurs t content \<Longrightarrow> literal_templates t \<Longrightarrow> fb_rules t content = (Inr (content, 0), [])"
  unfolding fb_rules_def
  by (rule subn_rules_no_match) (auto simp: literal_templates_def dest: no_key_no_search)

lemma type_rules_untouched:
  "no_key_occurs t content \<Longrightarrow> literal_templates t \<Longrightarrow> type_rules t content = (Inr (content, 0), [])"
  unfolding type_rules_def
  by (rule subn_rules_no_match) (auto simp: literal_templates_def dest: no_key_no_search)

lemma input_rules_untouched:
  "no_key_occurs t content \<Longrightarrow> literal_templates t \<Longrightarrow> input_rules t content = (Inr (content, 0), [])"
  unfolding input_rules_def
  by (rule subn_rules_no_match) (auto simp: literal_templates_def backslash_def dest: no_key_no_search)

lemma removal_notes_untouched:
  "no_key_occurs t content \<Longrightarrow> removal_notes t content = []"
  by (rule removal_notes_no_match) (auto dest: no_key_no_search)

text \<open>
  Claim C3. When no old name of the supplied tables occurs in the content of the file (as
  the pass reads it), a pass returns \<open>changed = False\<close> with a count of 0, writes nothing
  and leaves the bytes of the file as they were; it logs and prints nothing either. The
  replacements of the tables are names, so they hold no backslash.
\<close>

theorem no_key_no_change:
  "(no_key_occurs enum_mapping (read_text bytes) \<and> literal_templates enum_mapping
      \<longrightarrow> replace_enums E file_path bytes enum_mapping
            = \<lparr>ret = Inr (0, False), disk = bytes, trace = []\<rparr>)
   \<and> (no_key_occurs input_mapping (read_text bytes) \<and> literal_templates input_mapping
      \<longrightarrow> replace_inputs E file_path bytes input_mapping
            = \<lparr>ret = Inr (0, False), disk = bytes, trace = []\<rparr>)
   \<and> (no_key_occurs fb_mapping (read_text bytes) \<and> literal_templates fb_mapping
       \<and> no_key_occurs type_mapping (read_text bytes) \<and> literal_templates type_mapping
       \<and> no_key_occurs fb_removal_mapping (read_text bytes)
      \<longrightarrow> replace_fbs_and_types E file_path bytes fb_mapping type_mapping fb_removal_mapping
            = \<lparr>ret = Inr (0, 0, False), disk = bytes, trace = []\<rparr>)"
  by (simp add: replace_enums_def replace_inputs_def replace_fbs_and_types_def
        fbs_and_types_rules_def Let_def enum_rules_untouched input_rules_untouched
        fb_rules_untouched type_rules_untouched removal_notes_untouched)

theorem no_key_no_change_witness:
  "replace_enums posix_plain ''prog.st'' ''axis.Power := TRUE;'' main_enum_mapping
     = \<lparr>ret = Inr (0, False), disk = ''axis.Power := TRUE;'', trace = []\<rparr>
   \<and> replace_inputs posix_plain ''prog.st'' ''axis.Power := TRUE;'' main_input_mapping
     = \<lparr>ret = Inr (0, False), disk = ''axis.Power := TRUE;'', trace = []\<rparr>
   \<and> replace_fbs_and_types posix_plain ''decl.var'' ''axis : MpAxisBasic;''
         main_fb_mapping main_type_mapping main_fb_removal_mapping
     = \<lparr>ret = Inr (0, 0, False), disk = ''axis : MpAxisBasic;'', trace = []\<rparr>"
proof -
  have e: "no_key_occurs main_enum_mapping (read_text ''axis.Power := TRUE;'')
           \<and> literal_templates main_enum_mapping"
    by code_simp
  have i: "no_key_occurs main_input_mapping (read_text ''axis.Power := TRUE;'')
           \<and> literal_templates main_input_mapping"
    by code_simp
  have f: "no_key_occurs main_fb_mapping (read_text ''axis : MpAxisBasic;'')
           \<and> literal_templates main_fb_mapping
           \<and> no_key_occurs main_type_mapping (read_text ''axis : MpAxisBasic;'')
           \<and> literal_templates main_type_mapping
           \<and> no_key_occurs main_fb_removal_mapping (read_text ''axis : MpAxisBasic;'')"
    by code_simp
  from e i f show ?thesis
    using no_key_no_change
            [where bytes = "''axis.Power := TRUE;''" and enum_mapping = main_enum_mapping
               and E = posix_plain and file_path = "''prog.st''", THEN conjunct1]
          no_key_no_change
            [where bytes = "''axis.Power := TRUE;''" and input_mapping = main_input_mapping
               and E = posix_plain and file_path = "''prog.st''", THEN conjunct2, THEN conjunct1]
          no_key_no_change
            [where bytes = "''axis : MpAxisBasic;''" and fb_mapping = main_fb_mapping
               and type_mapping = main_type_mapping
               and fb_removal_mapping = main_fb_removal_mapping
               and E = posix_plain and file_path = "''decl.var''", THEN conjunct2, THEN conjunct2]
    by blast
qed

section \<open>Properties of the scanner\<close>

lemma update_fresh: "k \<notin> fst ` set al \<Longrightarrow> AList.update k v al = al @ [(k, v)]"
  by (induction al) auto

lemma update_distinct_map:
  "distinct (map fst al) \<Longrightarrow> map_of al k = Some old \<Longrightarrow>
   AList.update k v al = map (\<lambda>(n, xs). if n = k then (n, v) else (n, xs)) al"
proof (induction al)
  case Nil
  then show ?case by simp
next
  case (Cons a al)
  obtain n xs where a: "a = (n, xs)" by (cases a)
  show ?case
  proof (cases "n = k")
    case True
    with Cons.prems a have "k \<notin> fst ` set al" by auto
    then have "map (\<lambda>(n, xs). if n = k then (n, v) else (n, xs)) al = al"
      by (induction al) auto
    with True a show ?thesis by simp
  next
    case False
    with Cons a show ?thesis by simp
  qed
qed

lemma init_results_acc:
  "distinct (map func_name fns) \<Longrightarrow> func_name ` set fns \<inter> fst ` set acc = {} \<Longrightarrow>
   foldl (\<lambda>results func. AList.update (func_name func) [] results) acc fns
     = acc @ map (\<lambda>f. (func_name f, [])) fns"
proof (induction fns arbitrary: acc)
  case Nil
  then show ?case by simp
next
  case (Cons f fns)
  from Cons.prems have fresh: "func_name f \<notin> fst ` set acc" by auto
  have "foldl (\<lambda>results func. AList.update (func_name func) [] results) (acc @ [(func_name f, [])]) fns
          = (acc @ [(func_name f, [])]) @ map (\<lambda>f. (func_name f, [])) fns"
    using Cons.prems by (intro Cons.IH) auto
  with fresh show ?case by (simp add: update_fresh)
qed

lemma init_results_distinct:
  "distinct (map func_name fns) \<Longrightarrow> init_results fns = map (\<lambda>f. (func_name f, [])) fns"
  unfolding init_results_def using init_results_acc [of fns "[]"] by simp

lemma process_file_acc:
  "distinct (map func_name fns) \<Longrightarrow> func_name ` set fns \<inter> fst ` set acc = {} \<Longrightarrow>
   \<forall>f \<in> set fns. call f p args \<noteq> None \<Longrightarrow>
   process_file fns args p acc = Some (acc @ map (\<lambda>f. (func_name f, returned f args p)) fns)"
proof (induction fns arbitrary: acc)
  case Nil
  then show ?case by simp
next
  case (Cons f fns)
  from Cons.prems obtain r where r: "call f p args = Some r" by auto
  from Cons.prems have fresh: "func_name f \<notin> fst ` set acc" by auto
  have "process_file fns args p (acc @ [(func_name f, r)])
          = Some ((acc @ [(func_name f, r)]) @ map (\<lambda>f. (func_name f, returned f args p)) fns)"
    using Cons.prems by (intro Cons.IH) auto
  with r fresh show ?case by (simp add: update_fresh returned_def)
qed

lemma map_of_named:
  "distinct (map func_name fns) \<Longrightarrow> f \<in> set fns \<Longrightarrow>
   map_of (map (\<lambda>f. (func_name f, B f)) fns) (func_name f) = Some (B f)"
  by (induction fns) (auto simp: image_iff)

lemma extend_results_spec:
  "distinct (map fst frs) \<Longrightarrow> distinct (map fst results) \<Longrightarrow> fst ` set frs \<subseteq> fst ` set results \<Longrightarrow>
   extend_results frs results
     = Some (map (\<lambda>(n, xs). (n, xs @ (case map_of frs n of None \<Rightarrow> [] | Some r \<Rightarrow> r))) results)"
proof (induction frs arbitrary: results)
  case Nil
  then show ?case by (simp add: case_prod_unfold)
next
  case (Cons fr frs)
  obtain n r where fr: "fr = (n, r)" by (cases fr)
  from Cons.prems fr have "n \<in> fst ` set results" by auto
  then obtain sofar where sofar: "map_of results n = Some sofar"
    by (metis (no_types, opaque_lifting) domD dom_map_of_conv_image_fst)
  let ?results' = "map (\<lambda>(k, xs). if k = n then (k, sofar @ r) else (k, xs)) results"
  have upd: "AList.update n (sofar @ r) results = ?results'"
    using Cons.prems(2) sofar by (rule update_distinct_map)
  have keys: "map fst ?results' = map fst results"
    by (induction results) auto
  have "extend_results frs ?results'
          = Some (map (\<lambda>(n, xs). (n, xs @ (case map_of frs n of None \<Rightarrow> [] | Some r \<Rightarrow> r))) ?results')"
  proof (rule Cons.IH)
    show "distinct (map fst frs)" using Cons.prems by simp
    show "distinct (map fst ?results')" unfolding keys by (rule Cons.prems(2))
    have "fst ` set ?results' = fst ` set results"
      using keys by (metis list.set_map)
    then show "fst ` set frs \<subseteq> fst ` set ?results'" using Cons.prems by auto
  qed
  moreover have "n \<notin> fst ` set frs" using Cons.prems fr by auto
  then have "map_of frs n = None" by (simp add: map_of_eq_None_iff)
  moreover have "\<forall>(k, xs) \<in> set results. k = n \<longrightarrow> xs = sofar"
  proof (clarify)
    fix xs assume "(n, xs) \<in> set results"
    with Cons.prems(2) have "map_of results n = Some xs"
      by (rule map_of_is_SomeI)
    with sofar show "xs = sofar" by simp
  qed
  ultimately show ?case
    using fr sofar upd by (auto simp: case_prod_unfold)
qed


lemma extend_ok:
  assumes "distinct (map func_name fns)"
  shows "extend_results (map (\<lambda>f. (func_name f, B f)) fns) (map (\<lambda>f. (func_name f, A f)) fns)
           = Some (map (\<lambda>f. (func_name f, A f @ B f)) fns)"
proof -
  have "extend_results (map (\<lambda>f. (func_name f, B f)) fns) (map (\<lambda>f. (func_name f, A f)) fns)
          = Some (map (\<lambda>(n, xs). (n, xs @ (case map_of (map (\<lambda>f. (func_name f, B f)) fns) n of
                                             None \<Rightarrow> [] | Some r \<Rightarrow> r)))
                    (map (\<lambda>f. (func_name f, A f)) fns))"
  proof (rule extend_results_spec)
    show "distinct (map fst (map (\<lambda>f. (func_name f, B f)) fns))"
      using assms by (simp add: comp_def)
    show "distinct (map fst (map (\<lambda>f. (func_name f, A f)) fns))"
      using assms by (simp add: comp_def)
    show "fst ` set (map (\<lambda>f. (func_name f, B f)) fns)
            \<subseteq> fst ` set (map (\<lambda>f. (func_name f, A f)) fns)"
      by (simp add: image_image)
  qed
  also have "map (\<lambda>(n, xs). (n, xs @ (case map_of (map (\<lambda>f. (func_name f, B f)) fns) n of
                                             None \<Rightarrow> [] | Some r \<Rightarrow> r)))
                    (map (\<lambda>f. (func_name f, A f)) fns)
             = map (\<lambda>f. (func_name f, A f @ B f)) fns"
    using assms by (simp add: map_of_named)
  finally show ?thesis .
qed

lemma consume_ok:
  "distinct (map func_name fns) \<Longrightarrow> \<forall>f \<in> set fns. \<forall>p \<in> set cs. call f p args \<noteq> None \<Longrightarrow>
   consume fns args cs (map (\<lambda>f. (func_name f, A f)) fns)
     = Some (map (\<lambda>f. (func_name f, A f @ concat (map (returned f args) cs))) fns)"
proof (induction cs arbitrary: A)
  case Nil
  then show ?case by simp
next
  case (Cons p cs)
  have pf: "process_file fns args p [] = Some (map (\<lambda>f. (func_name f, returned f args p)) fns)"
    using process_file_acc [of fns "[]" p args] Cons.prems by simp
  have ex: "extend_results (map (\<lambda>f. (func_name f, returned f args p)) fns)
              (map (\<lambda>f. (func_name f, A f)) fns)
            = Some (map (\<lambda>f. (func_name f, A f @ returned f args p)) fns)"
    using Cons.prems(1) by (rule extend_ok)
  have "consume fns args cs (map (\<lambda>f. (func_name f, A f @ returned f args p)) fns)
          = Some (map (\<lambda>f. (func_name f, (A f @ returned f args p) @ concat (map (returned f args) cs))) fns)"
    using Cons.prems by (intro Cons.IH) auto
  with pf ex show ?case by simp
qed

lemma mset_concat_map_perm:
  "mset xs = mset ys \<Longrightarrow> mset (concat (map g xs)) = mset (concat (map g ys))"
proof -
  assume "mset xs = mset ys"
  then have "image_mset (\<lambda>x. mset (g x)) (mset xs) = image_mset (\<lambda>x. mset (g x)) (mset ys)"
    by simp
  then have "sum_mset (image_mset (\<lambda>x. mset (g x)) (mset xs)) = sum_mset (image_mset (\<lambda>x. mset (g x)) (mset ys))"
    by simp
  then show ?thesis
    by (simp add: mset_concat sum_mset_sum_list [symmetric] comp_def)
qed

lemma scan_several:
  assumes "distinct (map func_name funcs)"
    and "\<forall>f \<in> set funcs. \<forall>p \<in> set (completion (file_paths rglob extensions)). call f p args \<noteq> None"
  shows "scan_files_parallel rglob completion extensions (Several funcs) args
           = Some (Keyed (map (\<lambda>f. (func_name f,
                concat (map (returned f args) (completion (file_paths rglob extensions))))) funcs))"
  using consume_ok [OF assms, of "\<lambda>f. []"] assms(1)
  by (simp add: scan_files_parallel_def init_results_distinct)

lemma scan_single:
  assumes "\<forall>p \<in> set (completion (file_paths rglob extensions)). call f p args \<noteq> None"
  shows "scan_files_parallel rglob completion extensions (Single f) args
           = Some (Flat (concat (map (returned f args) (completion (file_paths rglob extensions)))))"
  using consume_ok [of "[f]" "completion (file_paths rglob extensions)" args "\<lambda>f. []"] assms
  by (simp add: scan_files_parallel_def init_results_distinct)


lemma count_list_concat_map:
  "count_list (concat (map g xs)) p = sum_list (map (\<lambda>x. count_list (g x) p) xs)"
  by (induction xs) auto

lemma count_list_distinct: "distinct xs \<Longrightarrow> count_list xs p = (if p \<in> set xs then 1 else 0)"
  by (induction xs) auto

lemma sum_list_indicator:
  "sum_list (map (\<lambda>x. if P x then 1 else 0) xs) = length (filter P xs)"
  by (induction xs) auto

lemma count_list_mset: "mset xs = mset ys \<Longrightarrow> count_list xs p = count_list ys p"
  by (metis count_mset)

text \<open>
  Claim C1, as amended. Let the order of completion be any rearrangement of the submitted
  tasks. When the K functions of the list have pairwise distinct names and each of them
  returns for every enumerated file, the scan returns a mapping whose keys are the K names,
  and under each name the records are, as a multiset, the union of what that function
  returned over the enumerated files. When one function is supplied outside a list and it
  returns for every file, the scan returns the flat list of its records, the same multiset,
  without a key.
\<close>

theorem scan_results_by_name:
  assumes "mset (completion (file_paths rglob extensions)) = mset (file_paths rglob extensions)"
  shows "(distinct (map func_name funcs)
          \<and> (\<forall>f \<in> set funcs. \<forall>p \<in> set (file_paths rglob extensions). call f p args \<noteq> None)
          \<longrightarrow> (\<exists>results.
                 scan_files_parallel rglob completion extensions (Several funcs) args
                   = Some (Keyed results)
                 \<and> map fst results = map func_name funcs
                 \<and> (\<forall>f \<in> set funcs. \<exists>xs. map_of results (func_name f) = Some xs
                        \<and> mset xs = mset (concat (map (returned f args)
                                                   (file_paths rglob extensions))))))
       \<and> ((\<forall>p \<in> set (file_paths rglob extensions). call f p args \<noteq> None)
          \<longrightarrow> (\<exists>xs. scan_files_parallel rglob completion extensions (Single f) args = Some (Flat xs)
                 \<and> mset xs = mset (concat (map (returned f args) (file_paths rglob extensions)))))"
proof (intro conjI impI)
  let ?paths = "file_paths rglob extensions"
  have same_set: "set (completion ?paths) = set ?paths"
    using assms by (rule mset_eq_setD)
  {
    assume "distinct (map func_name funcs)
              \<and> (\<forall>f \<in> set funcs. \<forall>p \<in> set ?paths. call f p args \<noteq> None)"
    then have d: "distinct (map func_name funcs)"
      and ok: "\<forall>f \<in> set funcs. \<forall>p \<in> set (completion ?paths). call f p args \<noteq> None"
      using same_set by auto
    let ?results = "map (\<lambda>f. (func_name f, concat (map (returned f args) (completion ?paths)))) funcs"
    have "scan_files_parallel rglob completion extensions (Several funcs) args = Some (Keyed ?results)"
      using d ok by (rule scan_several)
    moreover have "map fst ?results = map func_name funcs"
      by simp
    moreover have "\<forall>f \<in> set funcs. \<exists>xs. map_of ?results (func_name f) = Some xs
                     \<and> mset xs = mset (concat (map (returned f args) ?paths))"
      using d assms by (auto simp: map_of_named intro: mset_concat_map_perm)
    ultimately show "\<exists>results.
                 scan_files_parallel rglob completion extensions (Several funcs) args
                   = Some (Keyed results)
                 \<and> map fst results = map func_name funcs
                 \<and> (\<forall>f \<in> set funcs. \<exists>xs. map_of results (func_name f) = Some xs
                        \<and> mset xs = mset (concat (map (returned f args) ?paths)))"
      by blast
  }
  {
    assume "\<forall>p \<in> set ?paths. call f p args \<noteq> None"
    then have "\<forall>p \<in> set (completion ?paths). call f p args \<noteq> None"
      using same_set by simp
    then have "scan_files_parallel rglob completion extensions (Single f) args
                 = Some (Flat (concat (map (returned f args) (completion ?paths))))"
      by (rule scan_single)
    then show "\<exists>xs. scan_files_parallel rglob completion extensions (Single f) args = Some (Flat xs)
                 \<and> mset xs = mset (concat (map (returned f args) ?paths))"
      using assms by (auto intro: mset_concat_map_perm)
  }
qed


theorem scan_results_by_name_witness:
  "(\<exists>results.
      scan_files_parallel (rglob_tree small_tree) rev [''.hw''] (Several [extract_path, extract_base]) ()
        = Some (Keyed results)
      \<and> map fst results = map func_name [extract_path, extract_base]
      \<and> (\<forall>f \<in> set [extract_path, extract_base]. \<exists>xs. map_of results (func_name f) = Some xs
             \<and> mset xs = mset (concat (map (returned f ())
                                        (file_paths (rglob_tree small_tree) [''.hw''])))))
   \<and> (\<exists>xs. scan_files_parallel (rglob_tree small_tree) rev [''.hw''] (Single extract_path) ()
              = Some (Flat xs)
           \<and> mset xs = mset (concat (map (returned extract_path ())
                                      (file_paths (rglob_tree small_tree) [''.hw'']))))"
proof -
  have perm: "mset (rev (file_paths (rglob_tree small_tree) [''.hw'']))
                = mset (file_paths (rglob_tree small_tree) [''.hw''])"
    by simp
  have several: "distinct (map func_name [extract_path, extract_base])
      \<and> (\<forall>f \<in> set [extract_path, extract_base].
            \<forall>p \<in> set (file_paths (rglob_tree small_tree) [''.hw'']). call f p () \<noteq> None)"
    by (simp add: extract_path_def extract_base_def)
  have single: "\<forall>p \<in> set (file_paths (rglob_tree small_tree) [''.hw'']). call extract_path p () \<noteq> None"
    by (simp add: extract_path_def)
  from scan_results_by_name
         [where completion = rev and rglob = "rglob_tree small_tree" and extensions = "[''.hw'']"
            and funcs = "[extract_path, extract_base]" and args = "()" and f = extract_path]
    perm several single
  show ?thesis
    by blast
qed

text \<open>
  The claim as it stands asks for K keys for any K functions. Two functions of the same
  name share one key, and the records under it are those of the later function only.
\<close>

theorem scan_same_name_counterexample:
  "scan_files_parallel (rglob_tree small_tree) id [''.hw''] (Several [extract_path, extract_base_renamed]) ()
     = Some (Keyed [(''extract_path'', [''a.hw'', ''b.hw''])])"
  by code_simp

text \<open>
  Claim C6, as amended. Let the order of completion be any rearrangement of the submitted
  tasks, and let the search for each pattern find no path twice. Then a file is the subject
  of exactly as many tasks as there are supplied extension filters that find it: one task
  when one filter finds it, and one more for each further filter. The flat result of a
  function that returns for every file is the concatenation of what the tasks returned, so
  the records of a file appear once for each of its tasks.
\<close>

theorem one_task_per_matching_filter:
  assumes "mset (completion (file_paths rglob extensions)) = mset (file_paths rglob extensions)"
    and "\<forall>ext \<in> set extensions. distinct (map fst (filter snd (rglob (CHR ''*'' # ext))))"
  shows "count_list (completion (file_paths rglob extensions)) p
           = length (filter (\<lambda>ext. (p, True) \<in> set (rglob (CHR ''*'' # ext))) extensions)
         \<and> ((\<forall>p \<in> set (file_paths rglob extensions). call f p args \<noteq> None)
            \<longrightarrow> scan_files_parallel rglob completion extensions (Single f) args
                  = Some (Flat (concat (map (returned f args)
                                         (completion (file_paths rglob extensions))))))"
proof
  have "count_list (completion (file_paths rglob extensions)) p
          = count_list (file_paths rglob extensions) p"
    using assms(1) by (rule count_list_mset)
  also have "\<dots> = sum_list (map (\<lambda>ext. count_list (map fst (filter snd (rglob (CHR ''*'' # ext)))) p)
                       extensions)"
    by (simp add: file_paths_def count_list_concat_map)
  also have "\<dots> = sum_list (map (\<lambda>ext. if (p, True) \<in> set (rglob (CHR ''*'' # ext)) then 1 else 0)
                       extensions)"
  proof (rule arg_cong [where f = sum_list], rule map_cong [OF refl])
    fix ext assume "ext \<in> set extensions"
    with assms(2) have "distinct (map fst (filter snd (rglob (CHR ''*'' # ext))))"
      by blast
    then have "count_list (map fst (filter snd (rglob (CHR ''*'' # ext)))) p
                 = (if p \<in> set (map fst (filter snd (rglob (CHR ''*'' # ext)))) then 1 else 0)"
      by (rule count_list_distinct)
    also have "p \<in> set (map fst (filter snd (rglob (CHR ''*'' # ext))))
                 \<longleftrightarrow> (p, True) \<in> set (rglob (CHR ''*'' # ext))"
      by force
    finally show "count_list (map fst (filter snd (rglob (CHR ''*'' # ext)))) p
                    = (if (p, True) \<in> set (rglob (CHR ''*'' # ext)) then 1 else 0)" .
  qed
  also have "\<dots> = length (filter (\<lambda>ext. (p, True) \<in> set (rglob (CHR ''*'' # ext))) extensions)"
    by (rule sum_list_indicator)
  finally show "count_list (completion (file_paths rglob extensions)) p
           = length (filter (\<lambda>ext. (p, True) \<in> set (rglob (CHR ''*'' # ext))) extensions)" .
next
  have same_set: "set (completion (file_paths rglob extensions)) = set (file_paths rglob extensions)"
    using assms(1) by (rule mset_eq_setD)
  show "(\<forall>p \<in> set (file_paths rglob extensions). call f p args \<noteq> None)
            \<longrightarrow> scan_files_parallel rglob completion extensions (Single f) args
                  = Some (Flat (concat (map (returned f args)
                                         (completion (file_paths rglob extensions)))))"
    using same_set by (auto intro: scan_single)
qed


theorem one_task_per_matching_filter_witness:
  "count_list (rev (file_paths (rglob_tree small_tree) [''.hw'', ''.txt''])) ''cfgA/a.hw'' = 1
   \<and> scan_files_parallel (rglob_tree small_tree) rev [''.hw'', ''.txt''] (Single extract_path) ()
       = Some (Flat [''cfgB/notes.txt'', ''cfgB/b.hw'', ''cfgA/a.hw''])"
proof -
  have perm: "mset (rev (file_paths (rglob_tree small_tree) [''.hw'', ''.txt'']))
                = mset (file_paths (rglob_tree small_tree) [''.hw'', ''.txt''])"
    by simp
  have once: "\<forall>ext \<in> set [''.hw'', ''.txt''].
                distinct (map fst (filter snd (rglob_tree small_tree (CHR ''*'' # ext))))"
    by code_simp
  have ok: "\<forall>p \<in> set (file_paths (rglob_tree small_tree) [''.hw'', ''.txt'']).
              call extract_path p () \<noteq> None"
    by (simp add: extract_path_def)
  have n: "length (filter (\<lambda>ext. (''cfgA/a.hw'', True) \<in> set (rglob_tree small_tree (CHR ''*'' # ext)))
                     [''.hw'', ''.txt'']) = 1"
    by code_simp
  have r: "concat (map (returned extract_path ())
                     (rev (file_paths (rglob_tree small_tree) [''.hw'', ''.txt''])))
             = [''cfgB/notes.txt'', ''cfgB/b.hw'', ''cfgA/a.hw'']"
    by code_simp
  from one_task_per_matching_filter
         [where completion = rev and rglob = "rglob_tree small_tree"
            and extensions = "[''.hw'', ''.txt'']" and p = "''cfgA/a.hw''"
            and f = extract_path and args = "()"]
    perm once ok n r
  show ?thesis
    by simp
qed

text \<open>
  The claim as it stands includes the case of several filters that fit one file name. With
  the filters \<open>.hw\<close> and \<open>hw\<close> each file ending in \<open>.hw\<close> is enumerated twice, two
  tasks process it, and its records are in the result twice.
\<close>

theorem scan_overlapping_filters_counterexample:
  "scan_files_parallel (rglob_tree small_tree) id [''.hw'', ''hw''] (Single extract_path) ()
     = Some (Flat [''cfgA/a.hw'', ''cfgB/b.hw'', ''cfgA/a.hw'', ''cfgB/b.hw''])"
  by code_simp

section \<open>Properties of the hardware check\<close>

lemma setdefault_lookup:
  "map_of (setdefault k v d) = (if map_of d k = None then (map_of d)(k \<mapsto> v) else map_of d)"
  by (auto simp: setdefault_def update_conv' split: option.splits)

lemma setdefault_distinct: "distinct (map fst d) \<Longrightarrow> distinct (map fst (setdefault k v d))"
  by (auto simp: setdefault_def distinct_update split: option.splits)

lemma append_config_lookup:
  "map_of (append_config k c d)
     = (case map_of d k of None \<Rightarrow> map_of d | Some (r, cs) \<Rightarrow> (map_of d)(k \<mapsto> (r, cs @ [c])))"
  by (auto simp: append_config_def update_conv' split: option.splits)

lemma append_config_distinct: "distinct (map fst d) \<Longrightarrow> distinct (map fst (append_config k c d))"
  by (auto simp: append_config_def distinct_update split: option.splits)

lemma group_results_distinct:
  "distinct (map fst G) \<Longrightarrow> distinct (map fst (group_results rs G))"
  by (induction rs G rule: group_results.induct)
     (simp_all add: Let_def setdefault_distinct append_config_distinct)

lemma group_results_lookup:
  "map_of (group_results rs G) h
     = (case map_of G h of
          Some (r, cs) \<Rightarrow> Some (r, cs @ configs_of h rs)
        | None \<Rightarrow> (case first_reason h rs of
                     Some r \<Rightarrow> Some (r, configs_of h rs)
                   | None \<Rightarrow> None))"
proof (induction rs G rule: group_results.induct)
  case (1 G)
  then show ?case
    by (auto simp: configs_of_def first_reason_def split: option.splits)
next
  case (2 hardware_id reason file_path rs G)
  show ?case
    by (simp add: 2 [simplified Let_def] Let_def)
       (auto simp: append_config_lookup setdefault_lookup configs_of_def first_reason_def
             split: option.splits)
qed

lemma group_results_keys:
  "fst ` set (group_results rs G) = fst ` set G \<union> fst ` set rs"
proof -
  have "dom (map_of (group_results rs G)) = dom (map_of G) \<union> fst ` set rs"
  proof (rule set_eqI)
    fix h
    have "first_reason h rs = None \<longleftrightarrow> h \<notin> fst ` set rs"
      by (induction rs) (auto simp: first_reason_def)
    then show "h \<in> dom (map_of (group_results rs G)) \<longleftrightarrow> h \<in> dom (map_of G) \<union> fst ` set rs"
      by (auto simp: group_results_lookup dom_def split: option.splits)
  qed
  then show ?thesis
    by (simp add: dom_map_of_conv_image_fst)
qed

lemma hardware_report_concat:
  "foldl (\<lambda>output entry. output @ entry_text entry) start G = start @ concat (map entry_text G)"
  by (induction G arbitrary: start) simp_all


lemma added_records_set:
  "set (added_records file_path hardware_dict matches)
     = {(hw_type, reason, file_path) | hw_type reason items.
          hw_type \<in> set matches \<and> (reason, items) \<in> set hardware_dict \<and> hw_type \<in> set items}"
  by (auto simp: added_records_def split: if_splits)

text \<open>
  What an entry of the report shows: the configuration names of the entry are the folder
  names of its records in the order of the records; the first three of them are taken and
  then sorted, and the count that follows is the length of the list less three.
\<close>

lemma entry_lists_first_three_sorted:
  assumes "(hardware_id, reason, configs) \<in> set (group_results hardware_results [])"
  shows "configs = configs_of hardware_id hardware_results
         \<and> entry_text (hardware_id, reason, configs)
             = [LF, LF] @ ''- '' @ hardware_id @ '': '' @ reason
               @ [LF] @ ''  Used in configurations: '' @ join '', '' (sort (take 3 configs))
               @ (if 3 < length configs
                  then '', and '' @ str_nat (length configs - 3) @ '' more...'' else [])
         \<and> sorted (sort (take 3 configs))
         \<and> length (sort (take 3 configs)) = min 3 (length configs)
         \<and> mset (sort (take 3 configs)) \<subseteq># mset configs
         \<and> hardware_report (group_results hardware_results [])
             = ''The following unsupported hardware were found:''
               @ concat (map entry_text (group_results hardware_results []))"
proof -
  have "distinct (map fst (group_results hardware_results []))"
    by (rule group_results_distinct) simp
  with assms have "map_of (group_results hardware_results []) hardware_id = Some (reason, configs)"
    by (simp add: map_of_is_SomeI)
  then have c: "configs = configs_of hardware_id hardware_results"
    by (auto simp: group_results_lookup split: option.splits)
  have "mset configs = mset (take 3 configs) + mset (drop 3 configs)"
    by (metis append_take_drop_id mset_append)
  then have sub: "mset (sort (take 3 configs)) \<subseteq># mset configs"
    by simp
  have e: "entry_text (hardware_id, reason, configs)
             = [LF, LF] @ ''- '' @ hardware_id @ '': '' @ reason
               @ [LF] @ ''  Used in configurations: '' @ join '', '' (sort (take 3 configs))
               @ (if 3 < length configs
                  then '', and '' @ str_nat (length configs - 3) @ '' more...'' else [])"
    by (simp add: entry_text_def)
  have r: "hardware_report (group_results hardware_results [])
             = ''The following unsupported hardware were found:''
               @ concat (map entry_text (group_results hardware_results []))"
    unfolding hardware_report_def by (rule hardware_report_concat)
  have s: "sorted (sort (take 3 configs))"
    by simp
  have l: "length (sort (take 3 configs)) = min 3 (length configs)"
    by simp
  from c e s l sub r show ?thesis
    by blast
qed

text \<open>
  Claim C5. The report is to list, for an identifier, the sorted configuration folder
  names, at most three of them, and then the count of the others. The code takes the first
  three names in the order in which the tasks completed and sorts those three. Four
  configurations \<open>cfgA\<close> to \<open>cfgD\<close> use the same module. When the tasks complete in the
  order D, C, B, A the report lists \<open>cfgB, cfgC, cfgD\<close>; when they complete in the order
  A, B, C, D it lists \<open>cfgA, cfgB, cfgC\<close>. The first three of the sorted names are
  \<open>cfgA, cfgB, cfgC\<close> in both cases.
\<close>

theorem report_lists_first_arrivals:
  "check_hardware (rglob_tree four_config_tree) rev one_module_disk id (Some [(''EOL'', [''X100''])]) False
     = Some [Banner,
             Log (''The following unsupported hardware were found:'' @ [LF, LF] @ ''- X100: EOL''
                  @ [LF] @ ''  Used in configurations: cfgB, cfgC, cfgD, and 1 more...'')
               ''AS4'' ''WARNING'']
   \<and> check_hardware (rglob_tree four_config_tree) id one_module_disk id (Some [(''EOL'', [''X100''])]) False
     = Some [Banner,
             Log (''The following unsupported hardware were found:'' @ [LF, LF] @ ''- X100: EOL''
                  @ [LF] @ ''  Used in configurations: cfgA, cfgB, cfgC, and 1 more...'')
               ''AS4'' ''WARNING'']
   \<and> take 3 (sort (configs_of ''X100'' four_config_records)) = [''cfgA'', ''cfgB'', ''cfgC'']"
  by code_simp

text \<open>
  Claim C10. \<open>process_hw_file\<close> returns, without repetition, one record for each pair of
  an identifier found in the file and a reason whose list holds it; an identifier listed
  under two reasons gives two records for one file. The grouped report has one entry for
  each identifier of the records. Its reason is the reason of the first record of that
  identifier, and its configuration list has the folder name of every record of the
  identifier, so a name can be there more than once.
\<close>

theorem one_entry_per_identifier:
  assumes "mset (set_order (remdups (added_records file_path hardware_dict
                                       (findall_modules (read_file file_path)))))
             = mset (remdups (added_records file_path hardware_dict
                                       (findall_modules (read_file file_path))))"
  shows "(\<exists>records. process_hw_file read_file set_order file_path hardware_dict = Some records
            \<and> distinct records
            \<and> set records
                = {(hw_type, reason, file_path) | hw_type reason items.
                     hw_type \<in> set (findall_modules (read_file file_path))
                     \<and> (reason, items) \<in> set hardware_dict \<and> hw_type \<in> set items})
         \<and> distinct (map fst (group_results hardware_results []))
         \<and> fst ` set (group_results hardware_results []) = fst ` set hardware_results
         \<and> (first_reason hardware_id hardware_results = Some reason
              \<longrightarrow> map_of (group_results hardware_results []) hardware_id
                    = Some (reason, configs_of hardware_id hardware_results))"
proof -
  let ?added = "added_records file_path hardware_dict (findall_modules (read_file file_path))"
  have "distinct (set_order (remdups ?added))"
    using assms by (metis distinct_remdups mset_eq_imp_distinct_iff)
  moreover have "set (set_order (remdups ?added)) = set ?added"
    using assms by (metis mset_eq_setD set_remdups)
  ultimately have p: "\<exists>records. process_hw_file read_file set_order file_path hardware_dict = Some records
            \<and> distinct records
            \<and> set records
                = {(hw_type, reason, file_path) | hw_type reason items.
                     hw_type \<in> set (findall_modules (read_file file_path))
                     \<and> (reason, items) \<in> set hardware_dict \<and> hw_type \<in> set items}"
    by (simp add: process_hw_file_def Let_def added_records_set)
  have d: "distinct (map fst (group_results hardware_results []))"
    by (rule group_results_distinct) simp
  have k: "fst ` set (group_results hardware_results []) = fst ` set hardware_results"
    by (simp add: group_results_keys)
  have l: "first_reason hardware_id hardware_results = Some reason
              \<longrightarrow> map_of (group_results hardware_results []) hardware_id
                    = Some (reason, configs_of hardware_id hardware_results)"
    by (simp add: group_results_lookup)
  from p d k l show ?thesis
    by blast
qed

theorem one_entry_per_identifier_witness:
  "process_hw_file one_module_disk id ''Physical/cfgA/Hardware.hw'' catalog_two_reasons
     = Some [(''X100'', ''EOL'', ''Physical/cfgA/Hardware.hw''),
             (''X100'', ''Replaced'', ''Physical/cfgA/Hardware.hw'')]
   \<and> first_reason ''X100'' [(''X100'', ''EOL'', ''Physical/cfgA/Hardware.hw''),
                              (''X100'', ''Replaced'', ''Physical/cfgA/Hardware.hw'')] = Some ''EOL''
   \<and> map_of (group_results [(''X100'', ''EOL'', ''Physical/cfgA/Hardware.hw''),
                              (''X100'', ''Replaced'', ''Physical/cfgA/Hardware.hw'')] []) ''X100''
       = Some (''EOL'', [''cfgA'', ''cfgA''])"
proof -
  have perm: "mset (id (remdups (added_records ''Physical/cfgA/Hardware.hw'' catalog_two_reasons
                                       (findall_modules (one_module_disk ''Physical/cfgA/Hardware.hw'')))))
             = mset (remdups (added_records ''Physical/cfgA/Hardware.hw'' catalog_two_reasons
                                       (findall_modules (one_module_disk ''Physical/cfgA/Hardware.hw''))))"
    by simp
  have p: "process_hw_file one_module_disk id ''Physical/cfgA/Hardware.hw'' catalog_two_reasons
     = Some [(''X100'', ''EOL'', ''Physical/cfgA/Hardware.hw''),
             (''X100'', ''Replaced'', ''Physical/cfgA/Hardware.hw'')]"
    by code_simp
  have f: "first_reason ''X100'' [(''X100'', ''EOL'', ''Physical/cfgA/Hardware.hw''),
                              (''X100'', ''Replaced'', ''Physical/cfgA/Hardware.hw'')] = Some ''EOL''"
    by code_simp
  have c: "configs_of ''X100'' [(''X100'', ''EOL'', ''Physical/cfgA/Hardware.hw''),
                              (''X100'', ''Replaced'', ''Physical/cfgA/Hardware.hw'')] = [''cfgA'', ''cfgA'']"
    by code_simp
  from one_entry_per_identifier
         [where set_order = id and read_file = one_module_disk
            and file_path = "''Physical/cfgA/Hardware.hw''" and hardware_dict = catalog_two_reasons
            and hardware_results = "[(''X100'', ''EOL'', ''Physical/cfgA/Hardware.hw''),
                              (''X100'', ''Replaced'', ''Physical/cfgA/Hardware.hw'')]"
            and hardware_id = "''X100''" and reason = "''EOL''"]
    perm p f c
  show ?thesis
    by simp
qed

section \<open>Properties of the migration run\<close>

lemma logged_at_append [simp]: "logged_at s (xs @ ys) = logged_at s xs @ logged_at s ys"
  by (simp add: logged_at_def)

lemma logged_at_Nil [simp]: "logged_at s [] = []"
  by (simp add: logged_at_def)
















section \<open>Properties of the substitutions\<close>








lemma subn_copy:
  "\<not> matches_here p prev (c # cs) \<Longrightarrow>
   re_subn_from p repl prev (c # cs)
     = (c # fst (re_subn_from p repl (Some c) cs), snd (re_subn_from p repl (Some c) cs))"
  by (subst re_subn_from.simps) (simp add: case_prod_unfold del: matches_here.simps)



lemma last_char_append: "last_char prev (xs @ ys) = last_char (last_char prev xs) ys"
  by (induction xs arbitrary: prev) simp_all

lemma join_Cons: "gs \<noteq> [] \<Longrightarrow> join sep (g # gs) = g @ sep @ join sep gs"
  by (cases gs) simp_all

lemma dotted_match_needs_word_before:
  "matches_here (Bounded (CHR ''.'' # old)) prev s \<Longrightarrow> is_w prev \<and> prefix (CHR ''.'' # old) s"
  by (cases s) (auto simp: word_boundary_def is_word_char_def)

lemma subn_gaps:
  "pattern_text p \<noteq> [] \<Longrightarrow> \<forall>prev s. matches_here p prev s \<longrightarrow> Q prev \<Longrightarrow>
   \<exists>gaps. length gaps = Suc (snd (re_subn_from p repl prev s))
        \<and> s = join (pattern_text p) gaps
        \<and> fst (re_subn_from p repl prev s) = join repl gaps
        \<and> (\<forall>i < snd (re_subn_from p repl prev s).
              Q (last_char prev (join (pattern_text p) (take (Suc i) gaps))))"
proof (induction p repl prev s rule: re_subn_from.induct)
  case (1 p repl prev s)
  show ?case
  proof (cases "matches_here p prev s")
    case True
    let ?rest = "drop (length (pattern_text p)) s"
    let ?prev' = "last_char prev (pattern_text p)"
    from True have pre: "prefix (pattern_text p) s"
      by (cases p) simp_all
    then have s: "s = pattern_text p @ ?rest"
      by (metis append_eq_conv_conj prefixE)
    from "1.IH"(2) True "1.prems"
    obtain gaps where g: "length gaps = Suc (snd (re_subn_from p repl ?prev' ?rest))"
        "?rest = join (pattern_text p) gaps"
        "fst (re_subn_from p repl ?prev' ?rest) = join repl gaps"
        "\<forall>i < snd (re_subn_from p repl ?prev' ?rest).
              Q (last_char ?prev' (join (pattern_text p) (take (Suc i) gaps)))"
      by blast
    from g(1) have ne: "gaps \<noteq> []" by auto
    have unf: "re_subn_from p repl prev s
                 = (repl @ fst (re_subn_from p repl ?prev' ?rest),
                    Suc (snd (re_subn_from p repl ?prev' ?rest)))"
      using True "1.prems"(1) by (subst re_subn_from.simps) (simp add: case_prod_unfold)
    have q: "Q prev" using "1.prems"(2) True by blast
    have "\<forall>i < Suc (snd (re_subn_from p repl ?prev' ?rest)).
              Q (last_char prev (join (pattern_text p) (take (Suc i) ([] # gaps))))"
    proof (intro allI impI)
      fix i assume i: "i < Suc (snd (re_subn_from p repl ?prev' ?rest))"
      show "Q (last_char prev (join (pattern_text p) (take (Suc i) ([] # gaps))))"
      proof (cases i)
        case 0
        then show ?thesis using q by simp
      next
        case (Suc j)
        with i have j: "j < snd (re_subn_from p repl ?prev' ?rest)" by simp
        have "take (Suc j) gaps \<noteq> []" using ne by (cases gaps) auto
        then have "join (pattern_text p) (take (Suc i) ([] # gaps))
                     = pattern_text p @ join (pattern_text p) (take (Suc j) gaps)"
          using Suc by (simp add: join_Cons)
        with g(4) j show ?thesis
          by (simp add: last_char_append)
      qed
    qed
    moreover have "s = join (pattern_text p) ([] # gaps)"
      using s g(2) ne by (simp add: join_Cons)
    moreover have "repl @ fst (re_subn_from p repl ?prev' ?rest) = join repl ([] # gaps)"
      using g(3) ne by (simp add: join_Cons)
    ultimately show ?thesis
      using unf g(1) by (intro exI [of _ "[] # gaps"]) simp
  next
    case False
    show ?thesis
    proof (cases s)
      case Nil
      with False have "re_subn_from p repl prev s = ([], 0)"
        by (subst re_subn_from.simps) simp
      with Nil show ?thesis
        by (intro exI [of _ "[[]]"]) simp
    next
      case (Cons c cs)
      from "1.IH"(3) False Cons "1.prems"
      obtain gaps where g: "length gaps = Suc (snd (re_subn_from p repl (Some c) cs))"
        "cs = join (pattern_text p) gaps"
        "fst (re_subn_from p repl (Some c) cs) = join repl gaps"
        "\<forall>i < snd (re_subn_from p repl (Some c) cs).
              Q (last_char (Some c) (join (pattern_text p) (take (Suc i) gaps)))"
        by blast
      from g(1) obtain g0 gs where gaps: "gaps = g0 # gs" by (cases gaps) auto
      have unf: "re_subn_from p repl prev s
                   = (c # fst (re_subn_from p repl (Some c) cs), snd (re_subn_from p repl (Some c) cs))"
        using False Cons by (subst re_subn_from.simps) (simp add: case_prod_unfold)
      have j: "join sep ((c # g0) # xs) = c # join sep (g0 # xs)" for sep xs
        by (cases xs) simp_all
      have "\<forall>i < snd (re_subn_from p repl (Some c) cs).
              Q (last_char prev (join (pattern_text p) (take (Suc i) ((c # g0) # gs))))"
        using g(4) gaps by (simp add: j)
      then show ?thesis
        using unf g(1,2,3) gaps Cons by (intro exI [of _ "(c # g0) # gs"]) (simp add: j)
    qed
  qed
qed

text \<open>
  Claim C9. The pattern of \<open>replace_inputs\<close> for an old name is a word boundary, a dot,
  the name and a word boundary. It matches only where the dot has a word character right
  before it. A dot that stands at the start of the content or after a character that is no
  word character is copied. For a rule, the content is a list of gaps with the dotted old
  name between them, the result is the same gaps with the dotted new name between them, and
  the text before each replaced occurrence ends with a word character.
\<close>

theorem dotted_input_replacement:
  assumes "backslash \<notin> set new_input"
  shows "(matches_here (Bounded (CHR ''.'' # old_input)) prev s
            \<longrightarrow> is_w prev \<and> prefix (CHR ''.'' # old_input) s)
       \<and> (\<not> is_w prev
            \<longrightarrow> re_subn_from (Bounded (CHR ''.'' # old_input)) (CHR ''.'' # new_input) prev
                  (CHR ''.'' # rest)
                = (CHR ''.'' # fst (re_subn_from (Bounded (CHR ''.'' # old_input))
                                     (CHR ''.'' # new_input) (Some CHR ''.'') rest),
                   snd (re_subn_from (Bounded (CHR ''.'' # old_input))
                          (CHR ''.'' # new_input) (Some CHR ''.'') rest)))
       \<and> (\<exists>modified n evs gaps.
            input_rules [(old_input, new_input)] content = (Inr (modified, n), evs)
            \<and> length gaps = Suc n
            \<and> content = join (CHR ''.'' # old_input) gaps
            \<and> modified = join (CHR ''.'' # new_input) gaps
            \<and> (\<forall>i < n. is_w (last_char None (join (CHR ''.'' # old_input) (take (Suc i) gaps)))))"
proof (intro conjI impI)
  assume "matches_here (Bounded (CHR ''.'' # old_input)) prev s"
  then show "is_w prev" and "prefix (CHR ''.'' # old_input) s"
    using dotted_match_needs_word_before by blast+
next
  assume "\<not> is_w prev"
  then have "\<not> matches_here (Bounded (CHR ''.'' # old_input)) prev (CHR ''.'' # rest)"
    using dotted_match_needs_word_before by blast
  then show "re_subn_from (Bounded (CHR ''.'' # old_input)) (CHR ''.'' # new_input) prev
                  (CHR ''.'' # rest)
                = (CHR ''.'' # fst (re_subn_from (Bounded (CHR ''.'' # old_input))
                                     (CHR ''.'' # new_input) (Some CHR ''.'') rest),
                   snd (re_subn_from (Bounded (CHR ''.'' # old_input))
                          (CHR ''.'' # new_input) (Some CHR ''.'') rest))"
    by (rule subn_copy)
next
  let ?p = "Bounded (CHR ''.'' # old_input)" and ?r = "CHR ''.'' # new_input"
  have "pattern_text ?p \<noteq> []"
    by simp
  moreover have "\<forall>prev s. matches_here ?p prev s \<longrightarrow> is_w prev"
    using dotted_match_needs_word_before by blast
  ultimately obtain gaps where g: "length gaps = Suc (snd (re_subn_from ?p ?r None content))"
      "content = join (pattern_text ?p) gaps"
      "fst (re_subn_from ?p ?r None content) = join ?r gaps"
      "\<forall>i < snd (re_subn_from ?p ?r None content).
          is_w (last_char None (join (pattern_text ?p) (take (Suc i) gaps)))"
    using subn_gaps [of ?p is_w ?r None content] by blast
  let ?n = "snd (re_subn_from ?p ?r None content)"
  have "input_rules [(old_input, new_input)] content
          = (Inr (fst (re_subn_from ?p ?r None content), ?n),
             if ?n > 0 then [Log_v (input_msg ?n old_input new_input)] else [])"
    using assms by (simp add: input_rules_def re_subn_def backslash_def case_prod_unfold)
  with g show "\<exists>modified n evs gaps.
            input_rules [(old_input, new_input)] content = (Inr (modified, n), evs)
            \<and> length gaps = Suc n
            \<and> content = join (CHR ''.'' # old_input) gaps
            \<and> modified = join (CHR ''.'' # new_input) gaps
            \<and> (\<forall>i < n. is_w (last_char None (join (CHR ''.'' # old_input) (take (Suc i) gaps))))"
    by (intro exI [of _ "fst (re_subn_from ?p ?r None content)"] exI [of _ ?n]
              exI [of _ "if ?n > 0 then [Log_v (input_msg ?n old_input new_input)] else []"]
              exI [of _ gaps]) simp
qed

theorem dotted_input_replacement_witness:
  "is_w (Some CHR ''x'')
   \<and> input_rules [(''StandBy'', ''Standby'')] ''.StandBy x.StandBy  .StandBy''
       = (Inr (''.StandBy x.Standby  .StandBy'', 1), [Log_v (input_msg 1 ''StandBy'' ''Standby'')])
   \<and> ''.StandBy x.StandBy  .StandBy'' = join ''.StandBy'' [''.StandBy x'', ''  .StandBy'']
   \<and> ''.StandBy x.Standby  .StandBy'' = join ''.Standby'' [''.StandBy x'', ''  .StandBy'']"
proof -
  have b: "backslash \<notin> set ''Standby''"
    by code_simp
  have m: "matches_here (Bounded (CHR ''.'' # ''StandBy'')) (Some CHR ''x'') ''.StandBy  ''"
    by code_simp
  have w: "is_w (Some CHR ''x'')"
    using dotted_input_replacement [OF b, of "''StandBy''" "Some CHR ''x''" "''.StandBy  ''"] m
    by blast
  have e: "input_rules [(''StandBy'', ''Standby'')] ''.StandBy x.StandBy  .StandBy''
       = (Inr (''.StandBy x.Standby  .StandBy'', 1), [Log_v (input_msg 1 ''StandBy'' ''Standby'')])"
    by code_simp
  have j1: "''.StandBy x.StandBy  .StandBy'' = join ''.StandBy'' [''.StandBy x'', ''  .StandBy'']"
    by code_simp
  have j2: "''.StandBy x.Standby  .StandBy'' = join ''.Standby'' [''.StandBy x'', ''  .StandBy'']"
    by code_simp
  show ?thesis
    by (rule conjI [OF w conjI [OF e conjI [OF j1 j2]]])
qed

























end
